theory Spec2Isabelle
  imports Complex_Main "HOL-Library.Sublist" "HOL-Library.Monad_Syntax"
begin

section \<open>Strings of the runtime\<close>

text \<open>
  Strings are lists of code units; \<open>String.prototype.includes\<close> is the contiguous
  sublist test, \<open>substring(0, n)\<close> on a string is \<open>take n\<close>.
\<close>

definition js_includes :: "string \<Rightarrow> string \<Rightarrow> bool" where
  "js_includes s pat = sublist pat s"

text \<open>
  \<open>parseInt\<close> on a run of digits and the decimal numeral of a number; both exact (the
  runtime rounds above \<open>2^53\<close>).
\<close>

definition isDigit :: "char \<Rightarrow> bool" where
  "isDigit c = (c \<in> set ''0123456789'')"

definition digitValue :: "char \<Rightarrow> nat" where
  "digitValue c = of_char c - 48"

definition parseInt :: "string \<Rightarrow> nat" where
  "parseInt ds = foldl (\<lambda>n c. 10 * n + digitValue c) 0 ds"

function digitsOf :: "nat \<Rightarrow> string" where
  "digitsOf n =
     (if n < 10 then [char_of (48 + n)]
      else digitsOf (n div 10) @ [char_of (48 + n mod 10)])"
  by pat_completeness auto
termination
  by (relation "measure (\<lambda>n. n)") auto

declare digitsOf.simps [simp del]

definition numberToString :: "nat \<Rightarrow> string" where
  "numberToString n = digitsOf n"

text \<open>
  An object or a \<open>Map\<close> keeps its keys in insertion order: setting a present key
  replaces its value in place, a new key goes to the end.
\<close>

fun mapSet :: "'k \<Rightarrow> 'v \<Rightarrow> ('k \<times> 'v) list \<Rightarrow> ('k \<times> 'v) list" where
  "mapSet k v [] = [(k, v)]"
| "mapSet k v ((k', v') # kvs) = (if k' = k then (k, v) # kvs else (k', v') # mapSet k v kvs)"

section \<open>JSON values\<close>

text \<open>
  A number of the runtime is \<open>NaN\<close>, one of the two infinities, or a finite double. A
  finite double is named by the decimal numeral that \<open>Number.prototype.toString\<close>
  prints for it, the shortest one that reads back as the same double:
  \<open>Decimal negative s e\<close> stands for \<open>s \<times> 10\<^sup>e\<close> with its sign, where the
  digits \<open>s\<close> end in no zero. So \<open>12.5\<close> is \<open>Decimal False 125 (-1)\<close>, zero is
  \<open>Decimal False 0 0\<close> and \<open>-0\<close> is \<open>Decimal True 0 0\<close>. \<open>decimal\<close> brings
  any digits and exponent into that form.
\<close>

datatype jsnumber = NotANumber | PositiveInfinity | NegativeInfinity | Decimal bool nat int

fun isFinite :: "jsnumber \<Rightarrow> bool" where
  "isFinite (Decimal negative s e) = True"
| "isFinite x = False"

function stripZeros :: "nat \<Rightarrow> int \<Rightarrow> nat \<times> int" where
  "stripZeros s e = (if s \<noteq> 0 \<and> s mod 10 = 0 then stripZeros (s div 10) (e + 1) else (s, e))"
  by pat_completeness auto
termination
  by (relation "measure (\<lambda>p. fst p)") auto

declare stripZeros.simps [simp del]

definition decimal :: "bool \<Rightarrow> nat \<Rightarrow> int \<Rightarrow> jsnumber" where
  "decimal negative s e =
     (case stripZeros s e of (s', e') \<Rightarrow> if s' = 0 then Decimal negative 0 0 else Decimal negative s' e')"

definition numberOfNat :: "nat \<Rightarrow> jsnumber" where
  "numberOfNat n = decimal False n 0"

text \<open>
  \<open>Number::toString\<close> of the language specification for a positive finite number
  with digits \<open>s\<close> (\<open>k\<close> of them) and \<open>n = k + e\<close>: the digits followed by zeros when
  the number is an integer below \<open>10\<^sup>2\<^sup>1\<close>, a decimal point inside the digits, or
  \<open>0.\<close>, zeros and the digits down to \<open>10\<^sup>-\<^sup>6\<close>, and the exponent notation
  otherwise. Both zeros print as \<open>0\<close>.
\<close>

definition decimalText :: "nat \<Rightarrow> int \<Rightarrow> string" where
  "decimalText s e =
     (let ds = numberToString s; k = int (length ds); n = k + e
      in if 0 \<le> e \<and> n \<le> 21 then ds @ replicate (nat e) CHR ''0''
         else if 0 < n \<and> n \<le> 21 then take (nat n) ds @ ''.'' @ drop (nat n) ds
         else if - 6 < n \<and> n \<le> 0 then ''0.'' @ replicate (nat (- n)) CHR ''0'' @ ds
         else (if k = 1 then ds else [hd ds] @ ''.'' @ tl ds)
              @ ''e'' @ (if n - 1 < 0 then ''-'' else ''+'') @ numberToString (nat (abs (n - 1))))"

definition Number_toString :: "jsnumber \<Rightarrow> string" where
  "Number_toString x =
     (case x of
        NotANumber \<Rightarrow> ''NaN''
      | PositiveInfinity \<Rightarrow> ''Infinity''
      | NegativeInfinity \<Rightarrow> ''-Infinity''
      | Decimal negative s e \<Rightarrow>
          (case stripZeros s e of
             (s', e') \<Rightarrow> if s' = 0 then ''0'' else (if negative then ''-'' else []) @ decimalText s' e'))"

text \<open>
  What \<open>JSON.stringify\<close> writes and \<open>JSON.parse\<close> reads. An object is the list of its
  properties in insertion order.
\<close>

datatype json = JNull | JBool bool | JNumber jsnumber | JString string
  | JArray "json list" | JObject "(string \<times> json) list"

text \<open>
  \<open>JSON.stringify(value, null, 2)\<close>: two spaces of indentation per level, one
  property or element per line, \<open>{}\<close> and \<open>[]\<close> for the empty ones. In a string the
  quote, the backslash and the control characters are escaped, nothing else. A number
  that is not finite is written as \<open>null\<close>.
\<close>

definition LF :: char where "LF = CHR 0x0A"
definition dquote :: char where "dquote = CHR 0x22"
definition backslash :: char where "backslash = CHR 0x5C"

definition hexDigit :: "nat \<Rightarrow> char" where
  "hexDigit n = (if n < 10 then char_of (48 + n) else char_of (87 + n))"

definition escapeChar :: "char \<Rightarrow> string" where
  "escapeChar c =
     (if c = dquote then [backslash, dquote]
      else if c = backslash then [backslash, backslash]
      else if c = CHR 0x08 then [backslash, CHR ''b'']
      else if c = CHR 0x0C then [backslash, CHR ''f'']
      else if c = CHR 0x0A then [backslash, CHR ''n'']
      else if c = CHR 0x0D then [backslash, CHR ''r'']
      else if c = CHR 0x09 then [backslash, CHR ''t'']
      else if (of_char c :: nat) < 32 then
        [backslash, CHR ''u'', CHR ''0'', CHR ''0'', hexDigit (of_char c div 16), hexDigit (of_char c mod 16)]
      else [c])"

definition quote :: "string \<Rightarrow> string" where
  "quote s = [dquote] @ concat (map escapeChar s) @ [dquote]"

fun joinWith :: "string \<Rightarrow> string list \<Rightarrow> string" where
  "joinWith sep [] = []"
| "joinWith sep [x] = x"
| "joinWith sep (x # y # ys) = x @ sep @ joinWith sep (y # ys)"

fun stringifyIndent :: "string \<Rightarrow> json \<Rightarrow> string" where
  "stringifyIndent ind JNull = ''null''"
| "stringifyIndent ind (JBool b) = (if b then ''true'' else ''false'')"
| "stringifyIndent ind (JNumber x) = (if isFinite x then Number_toString x else ''null'')"
| "stringifyIndent ind (JString s) = quote s"
| "stringifyIndent ind (JArray vs) =
     (if vs = [] then ''[]''
      else ''['' @ [LF] @
           joinWith ('','' @ [LF]) (map (\<lambda>v. (ind @ ''  '') @ stringifyIndent (ind @ ''  '') v) vs)
           @ [LF] @ ind @ '']'')"
| "stringifyIndent ind (JObject kvs) =
     (if kvs = [] then ''{}''
      else ''{'' @ [LF] @
           joinWith ('','' @ [LF])
             (map (\<lambda>kv. (ind @ ''  '') @ quote (fst kv) @ '': '' @ stringifyIndent (ind @ ''  '') (snd kv)) kvs)
           @ [LF] @ ind @ ''}'')"

definition JSON_stringify :: "json \<Rightarrow> string" where
  "JSON_stringify v = stringifyIndent [] v"

text \<open>
  \<open>JSON.parse\<close>, as a recursive descent with fuel; twice the length of the text is
  more than any descent needs. \<open>None\<close> is the \<open>SyntaxError\<close>. A \<open>\u\<close> escape
  above \<open>00ff\<close> is outside the strings modelled here and gives \<open>None\<close> as well. A
  repeated key keeps its first position and its last value.
\<close>

definition isJsonSpace :: "char \<Rightarrow> bool" where
  "isJsonSpace c = (c \<in> set [CHR 0x20, CHR 0x09, CHR 0x0A, CHR 0x0D])"

definition skipWs :: "string \<Rightarrow> string" where
  "skipWs s = dropWhile isJsonSpace s"

definition hexValue :: "char \<Rightarrow> nat option" where
  "hexValue c =
     (if isDigit c then Some (of_char c - 48)
      else if c \<in> set ''abcdef'' then Some (of_char c - 87)
      else if c \<in> set ''ABCDEF'' then Some (of_char c - 55)
      else None)"

definition unicodeEscape :: "char \<Rightarrow> char \<Rightarrow> char \<Rightarrow> char \<Rightarrow> char option" where
  "unicodeEscape a b c d = do {
     x3 \<leftarrow> hexValue a; x2 \<leftarrow> hexValue b; x1 \<leftarrow> hexValue c; x0 \<leftarrow> hexValue d;
     if x3 = 0 \<and> x2 = 0 then Some (char_of (16 * x1 + x0)) else None
   }"

definition simpleEscape :: "char \<Rightarrow> char option" where
  "simpleEscape e =
     (if e = dquote then Some dquote
      else if e = backslash then Some backslash
      else if e = CHR ''/'' then Some CHR ''/''
      else if e = CHR ''b'' then Some (CHR 0x08)
      else if e = CHR ''f'' then Some (CHR 0x0C)
      else if e = CHR ''n'' then Some (CHR 0x0A)
      else if e = CHR ''r'' then Some (CHR 0x0D)
      else if e = CHR ''t'' then Some (CHR 0x09)
      else None)"

fun parseString :: "string \<Rightarrow> string \<Rightarrow> (string \<times> string) option" where
  "parseString acc [] = None"
| "parseString acc [c] = (if c = dquote then Some (acc, []) else None)"
| "parseString acc (c # e # es) =
     (if c = dquote then Some (acc, e # es)
      else if c = backslash then
        (if e = CHR ''u'' then
           (if length es < 4 then None
            else case unicodeEscape (es ! 0) (es ! 1) (es ! 2) (es ! 3) of
                   None \<Rightarrow> None
                 | Some ch \<Rightarrow> parseString (acc @ [ch]) (drop 4 es))
         else case simpleEscape e of
                None \<Rightarrow> None
              | Some ch \<Rightarrow> parseString (acc @ [ch]) es)
      else if (of_char c :: nat) < 32 then None
      else parseString (acc @ [c]) (e # es))"

text \<open>
  A number: an optional minus sign, the integer digits (no leading zero before another
  digit), an optional fraction and an optional exponent. The value is the decimal that
  the numeral denotes; the runtime rounds it to the nearest double, which is that
  decimal again for every numeral that \<open>Number::toString\<close> printed.
\<close>

definition readFraction :: "string \<Rightarrow> (string \<times> string) option" where
  "readFraction s =
     (if prefix ''.'' s then
        (if takeWhile isDigit (drop 1 s) = [] then None
         else Some (takeWhile isDigit (drop 1 s), dropWhile isDigit (drop 1 s)))
      else Some ([], s))"

definition readExponent :: "string \<Rightarrow> (int \<times> string) option" where
  "readExponent s =
     (if prefix ''e'' s \<or> prefix ''E'' s then
        (let t = drop 1 s;
             negative = prefix ''-'' t;
             u = (if negative \<or> prefix ''+'' t then drop 1 t else t);
             ds = takeWhile isDigit u
         in if ds = [] then None
            else Some (if negative then - int (parseInt ds) else int (parseInt ds), dropWhile isDigit u))
      else Some (0, s))"

definition parseNumber :: "string \<Rightarrow> (json \<times> string) option" where
  "parseNumber s =
     (let negative = prefix ''-'' s;
          body = (if negative then drop 1 s else s);
          ip = takeWhile isDigit body
      in if ip = [] then None
         else if hd ip = CHR ''0'' \<and> length ip > 1 then None
         else
           (case readFraction (dropWhile isDigit body) of
              None \<Rightarrow> None
            | Some (fd, r2) \<Rightarrow>
                (case readExponent r2 of
                   None \<Rightarrow> None
                 | Some (x, r3) \<Rightarrow>
                     Some (JNumber (decimal negative (parseInt (ip @ fd)) (x - int (length fd))), r3))))"

fun parseValue :: "nat \<Rightarrow> string \<Rightarrow> (json \<times> string) option"
  and parseElements :: "nat \<Rightarrow> json list \<Rightarrow> string \<Rightarrow> (json list \<times> string) option"
  and parseMembers :: "nat \<Rightarrow> (string \<times> json) list \<Rightarrow> string \<Rightarrow> ((string \<times> json) list \<times> string) option"
where
  "parseValue 0 s = None"
| "parseValue (Suc fuel) s =
     (let t = skipWs s
      in if prefix ''null'' t then Some (JNull, drop 4 t)
         else if prefix ''true'' t then Some (JBool True, drop 4 t)
         else if prefix ''false'' t then Some (JBool False, drop 5 t)
         else if prefix [dquote] t then
           map_option (\<lambda>p. (JString (fst p), snd p)) (parseString [] (drop 1 t))
         else if prefix ''['' t then
           (if prefix '']'' (skipWs (drop 1 t)) then Some (JArray [], drop 1 (skipWs (drop 1 t)))
            else map_option (\<lambda>p. (JArray (fst p), snd p)) (parseElements fuel [] (drop 1 t)))
         else if prefix ''{'' t then
           (if prefix ''}'' (skipWs (drop 1 t)) then Some (JObject [], drop 1 (skipWs (drop 1 t)))
            else map_option (\<lambda>p. (JObject (fst p), snd p)) (parseMembers fuel [] (drop 1 t)))
         else parseNumber t)"
| "parseElements 0 acc s = None"
| "parseElements (Suc fuel) acc s =
     (case parseValue fuel s of
        None \<Rightarrow> None
      | Some (v, rest) \<Rightarrow>
          if prefix '','' (skipWs rest) then parseElements fuel (acc @ [v]) (drop 1 (skipWs rest))
          else if prefix '']'' (skipWs rest) then Some (acc @ [v], drop 1 (skipWs rest))
          else None)"
| "parseMembers 0 acc s = None"
| "parseMembers (Suc fuel) acc s =
     (if prefix [dquote] (skipWs s) then
        (case parseString [] (drop 1 (skipWs s)) of
           None \<Rightarrow> None
         | Some (k, rest) \<Rightarrow>
             if prefix '':'' (skipWs rest) then
               (case parseValue fuel (drop 1 (skipWs rest)) of
                  None \<Rightarrow> None
                | Some (v, rest') \<Rightarrow>
                    if prefix '','' (skipWs rest') then parseMembers fuel (mapSet k v acc) (drop 1 (skipWs rest'))
                    else if prefix ''}'' (skipWs rest') then Some (mapSet k v acc, drop 1 (skipWs rest'))
                    else None)
             else None)
      else None)"

definition JSON_parse :: "string \<Rightarrow> json option" where
  "JSON_parse s =
     (case parseValue (2 * length s + 2) s of
        None \<Rightarrow> None
      | Some (v, rest) \<Rightarrow> if skipWs rest = [] then Some v else None)"

section \<open>Test results and test reports\<close>

text \<open>
  \<open>TestResult\<close> and \<open>TestReport\<close> of \<open>base/TestAgent\<close>. The declared type of
  \<open>status\<close> lists \<open>passed\<close>, \<open>failed\<close> and \<open>skipped\<close>; the accessibility and the
  performance agents also build results whose status is \<open>warning\<close>, and the feedback
  parser filters on it, so the values that reach \<open>createReport\<close> range over four
  statuses. Counts are natural numbers (\<open>Array.prototype.length\<close>); the timestamp and the
  durations are numbers of the runtime (the agents pass \<open>performance.now() - startTime\<close>,
  a fraction of a millisecond included); \<open>details\<close> and \<open>metadata\<close> are JSON values.
  The optional \<open>duration\<close> of a result is \<open>resultDuration\<close>.
\<close>

datatype TestStatus = TestPassed | TestFailed | TestSkipped | TestWarning

record TestResult =
  testName :: string
  status :: TestStatus
  resultDuration :: "jsnumber option"
  error :: "string option"
  details :: "json option"
  screenshot :: "string option"

record Summary =
  total :: nat
  passed :: nat
  failed :: nat
  skipped :: nat

record TestReport =
  agentName :: string
  timestamp :: jsnumber
  duration :: jsnumber
  results :: "TestResult list"
  summary :: Summary
  suggestions :: "string list option"
  metadata :: "json option"

text \<open>\<open>TestAgent.generateSuggestions\<close>: one hint per failed result that carries an error text.\<close>

definition suggestionFor :: "TestResult \<Rightarrow> string list" where
  "suggestionFor failure =
     (case error failure of
        None \<Rightarrow> []
      | Some e \<Rightarrow>
          if e = [] then []
          else if js_includes e ''TypeError'' then
            [''Fix type error in '' @ testName failure @ '': Check variable types and null/undefined values'']
          else if js_includes e ''ReferenceError'' then
            [''Fix reference error in '' @ testName failure @ '': Ensure all variables are properly defined'']
          else if js_includes e ''404'' then
            [''Fix missing resource in '' @ testName failure @ '': Check that all files and endpoints exist'']
          else if js_includes e ''timeout'' then
            [''Fix timeout in '' @ testName failure @ '': Optimize performance or increase timeout threshold'']
          else [''Fix error in '' @ testName failure @ '': '' @ take 100 e])"

definition generateSuggestions :: "TestResult list \<Rightarrow> string list" where
  "generateSuggestions rs =
     (let failures = filter (\<lambda>r. status r = TestFailed) rs
      in concat (map suggestionFor failures))"

text \<open>
  \<open>TestAgent.createReport\<close>. The agent's name, the clock (\<open>Date.now()\<close>) and the
  suggestion method (each concrete agent overrides it) are arguments.
\<close>

definition createReport ::
  "string \<Rightarrow> jsnumber \<Rightarrow> (TestResult list \<Rightarrow> string list) \<Rightarrow>
   TestResult list \<Rightarrow> jsnumber \<Rightarrow> json option \<Rightarrow> TestReport" where
  "createReport name now suggest rs dur meta =
     (let summ = \<lparr> total = length rs,
                   passed = length (filter (\<lambda>r. status r = TestPassed) rs),
                   failed = length (filter (\<lambda>r. status r = TestFailed) rs),
                   skipped = length (filter (\<lambda>r. status r = TestSkipped) rs) \<rparr>
      in \<lparr> agentName = name, timestamp = now, duration = dur, results = rs,
           summary = summ, suggestions = Some (suggest rs), metadata = meta \<rparr>)"

section \<open>Severity classification\<close>

datatype ErrorType = E_syntax | E_import | E_typescript | E_runtime | E_build

record CompilationError =
  ce_type :: ErrorType
  ce_file :: string
  ce_line :: "nat option"
  ce_column :: "nat option"
  ce_message :: string
  ce_rawError :: string
  ce_suggestion :: "string option"
  ce_timestamp :: int

datatype ErrorSeverity = ES_warning | ES_error | ES_critical

text \<open>\<open>ErrorFeedbackParser.calculateSeverity\<close>.\<close>

definition ErrorFeedbackParser_calculateSeverity :: "CompilationError list \<Rightarrow> ErrorSeverity" where
  "ErrorFeedbackParser_calculateSeverity errors =
     (let hasSyntaxError = list_ex (\<lambda>e. ce_type e = E_syntax) errors;
          hasBuildError = list_ex (\<lambda>e. ce_type e = E_build) errors
      in if hasBuildError \<or> hasSyntaxError then ES_critical
         else if length errors > 3 then ES_error
         else ES_warning)"

text \<open>
  The quotient of two counts as the runtime computes it: \<open>0 / 0\<close> is \<open>NaN\<close>, \<open>n / 0\<close>
  with \<open>n > 0\<close> is \<open>Infinity\<close>, anything else is the fraction. Comparisons with \<open>NaN\<close>
  are false. The fraction is exact here; for counts below \<open>2^32\<close> (array lengths) the
  rounded quotient compares with \<open>0\<close> and \<open>0.3\<close> as the exact one does.
\<close>

datatype jsnum = NaN | Infinity | Finite rat

definition js_div :: "nat \<Rightarrow> nat \<Rightarrow> jsnum" where
  "js_div a b = (if b = 0 then (if a = 0 then NaN else Infinity) else Finite (of_nat a / of_nat b))"

fun js_eq :: "jsnum \<Rightarrow> rat \<Rightarrow> bool" where
  "js_eq (Finite q) r = (q = r)"
| "js_eq _ r = False"

fun js_lt :: "jsnum \<Rightarrow> rat \<Rightarrow> bool" where
  "js_lt (Finite q) r = (q < r)"
| "js_lt _ r = False"

datatype TestSeverity = TS_success | TS_warning | TS_error

text \<open>\<open>TestFeedbackParser.calculateSeverity\<close>.\<close>

definition TestFeedbackParser_calculateSeverity :: "TestReport \<Rightarrow> TestSeverity" where
  "TestFeedbackParser_calculateSeverity report =
     (let failureRate = js_div (failed (summary report)) (total (summary report))
      in if js_eq failureRate 0 then TS_success
         else if js_lt failureRate (3 / 10) then TS_warning
         else TS_error)"

section \<open>The action runner\<close>

text \<open>
  \<open>ActionRunner\<close> of \<open>runtime/action-runner.ts\<close>. An action as the message parser
  hands it over (\<open>BoltAction\<close>) carries its type, its content and the type-specific
  fields the runner reads: \<open>filePath\<close> and \<open>operation\<close>. A feedback action also has
  a property named \<open>status\<close>, which the object spread in \<open>runAction\<close> copies over the
  runner's own \<open>status\<close>; it is kept as \<open>b_status\<close>. An absent property is \<open>None\<close>.
\<close>

datatype ActionType = File | Shell | Start | Build | Supabase | Test | Validate | Feedback

datatype ActionStatus = Pending | Running | Complete | Aborted | Failed | Foreign string

record BoltAction =
  b_type :: ActionType
  b_content :: string
  b_filePath :: "string option"
  b_operation :: "string option"
  b_status :: "string option"

text \<open>
  \<open>ActionState\<close>: the action's fields, \<open>status\<close>, \<open>error\<close> (set with status
  \<open>failed\<close>), \<open>executed\<close>, and \<open>aborted\<close> for \<open>abortSignal.aborted\<close>. The signal is
  created once per entry and every copy of the entry refers to it, so it is a field of
  the entry.
\<close>

record ActionState =
  atype :: ActionType
  content :: string
  filePath :: "string option"
  operation :: "string option"
  astatus :: ActionStatus
  aerror :: "string option"
  executed :: bool
  aborted :: bool

text \<open>
  The store \<open>actions\<close> is a nanostores \<open>map({})\<close>: its value is a plain object, and
  \<open>actions.get()[actionId]\<close> also finds the properties that every plain object
  inherits from \<open>Object.prototype\<close>. Each of them is a function or an object, so it is
  truthy, and none of them has a property \<open>executed\<close>, \<open>type\<close> or \<open>abortSignal\<close>.
\<close>

definition objectPrototypeKeys :: "string list" where
  "objectPrototypeKeys =
     [''constructor'', ''__defineGetter__'', ''__defineSetter__'', ''hasOwnProperty'',
      ''__lookupGetter__'', ''__lookupSetter__'', ''isPrototypeOf'', ''propertyIsEnumerable'',
      ''toString'', ''valueOf'', ''__proto__'', ''toLocaleString'']"

text \<open>
  When \<open>runAction\<close> finds such an inherited property under its id, the spread
  \<open>{ ...action, ...data.action, executed: !isStreaming }\<close> copies nothing from it, and
  \<open>setKey\<close> stores an own property that has the fields of \<open>data.action\<close> and
  \<open>executed\<close> only: no \<open>status\<close> (unless \<open>data.action\<close> has one), no \<open>abort\<close> and
  no \<open>abortSignal\<close>. Such an entry is a \<open>PartialEntry\<close>; reading
  \<open>abortSignal.aborted\<close> of it throws a \<open>TypeError\<close>.
\<close>

record PartialEntry =
  p_type :: ActionType
  p_content :: string
  p_filePath :: "string option"
  p_operation :: "string option"
  p_status :: "ActionStatus option"
  p_error :: "string option"
  p_executed :: bool

text \<open>
  The callbacks waiting on \<open>#currentExecutionPromise\<close>, in the order they were
  registered: \<open>addAction\<close> registers the transition to \<open>running\<close>, \<open>runAction\<close>
  appends the execution. Promise callbacks run in registration order and each execution
  is awaited before the next link, so the chain is a first-in first-out list.
\<close>

datatype ChainItem = MarkRunning string | Execute string bool

text \<open>
  The own properties of the store's object are kept in two maps by their shape: the
  entries that have a status and a signal in \<open>actions\<close>, the partial ones in
  \<open>partials\<close>. An id has at most one of the two.
\<close>

record ActionRunner =
  actions :: "string \<rightharpoonup> ActionState"
  partials :: "string \<rightharpoonup> PartialEntry"
  chain :: "ChainItem list"
  buildOutput :: "(string \<times> string) option"

definition newRunner :: ActionRunner where
  "newRunner = \<lparr> actions = Map.empty, partials = Map.empty, chain = [], buildOutput = None \<rparr>"

text \<open>
  \<open>#updateAction\<close> merges the update into the stored entry; \<open>updateAction\<close> is the
  merge into an entry of \<open>actions\<close>, \<open>updatePartial\<close> the merge into a partial one.
  Every caller passes the id of a stored entry (entries are never removed, see
  \<open>chain_registered\<close> below); for an id that has no entry the source would store an
  object holding only the update's properties, which neither entry type represents, and
  the model leaves the maps as they are.
\<close>

definition updateAction :: "string \<Rightarrow> (ActionState \<Rightarrow> ActionState) \<Rightarrow> ActionRunner \<Rightarrow> ActionRunner" where
  "updateAction actionId upd r =
     (case actions r actionId of
        None \<Rightarrow> r
      | Some a \<Rightarrow> r\<lparr> actions := (actions r)(actionId \<mapsto> upd a) \<rparr>)"

definition updatePartial :: "string \<Rightarrow> (PartialEntry \<Rightarrow> PartialEntry) \<Rightarrow> ActionRunner \<Rightarrow> ActionRunner" where
  "updatePartial actionId upd r =
     (case partials r actionId of
        None \<Rightarrow> r
      | Some p \<Rightarrow> r\<lparr> partials := (partials r)(actionId \<mapsto> upd p) \<rparr>)"

definition setStatus :: "ActionStatus \<Rightarrow> ActionState \<Rightarrow> ActionState" where
  "setStatus st a = a\<lparr> astatus := st \<rparr>"

definition setFailed :: "string \<Rightarrow> ActionState \<Rightarrow> ActionState" where
  "setFailed msg a = a\<lparr> astatus := Failed, aerror := Some msg \<rparr>"

text \<open>The \<open>abort\<close> closure of an entry: abort the controller, then set the status.\<close>

definition abort :: "string \<Rightarrow> ActionRunner \<Rightarrow> ActionRunner" where
  "abort actionId r =
     updateAction actionId (setStatus Aborted)
       (updateAction actionId (\<lambda>a. a\<lparr> aborted := True \<rparr>) r)"

text \<open>
  \<open>addAction\<close> returns at once when the lookup of the id is truthy: an entry, a partial
  entry, or an inherited property.
\<close>

definition addAction :: "string \<Rightarrow> BoltAction \<Rightarrow> ActionRunner \<Rightarrow> ActionRunner" where
  "addAction actionId data r =
     (case actions r actionId of
        Some action \<Rightarrow> r
      | None \<Rightarrow>
          if partials r actionId \<noteq> None \<or> actionId \<in> set objectPrototypeKeys then r
          else
            r\<lparr> actions := (actions r)(actionId \<mapsto>
                  \<lparr> atype = b_type data, content = b_content data, filePath = b_filePath data,
                    operation = b_operation data, astatus = Pending, aerror = None,
                    executed = False, aborted = False \<rparr>),
               chain := chain r @ [MarkRunning actionId] \<rparr>)"

text \<open>
  The spread \<open>{ ...action, ...data.action, executed: !isStreaming }\<close> of \<open>runAction\<close>:
  the properties present in \<open>data.action\<close> replace the stored ones.
\<close>

definition mergeAction :: "ActionState \<Rightarrow> BoltAction \<Rightarrow> bool \<Rightarrow> ActionState" where
  "mergeAction action data isStreaming =
     action\<lparr> atype := b_type data,
             content := b_content data,
             filePath := (case b_filePath data of None \<Rightarrow> filePath action | Some p \<Rightarrow> Some p),
             operation := (case b_operation data of None \<Rightarrow> operation action | Some p \<Rightarrow> Some p),
             astatus := (case b_status data of None \<Rightarrow> astatus action | Some st \<Rightarrow> Foreign st),
             executed := (\<not> isStreaming) \<rparr>"

text \<open>The same spread over a partial entry, and over an inherited property.\<close>

definition mergePartial :: "PartialEntry \<Rightarrow> BoltAction \<Rightarrow> bool \<Rightarrow> PartialEntry" where
  "mergePartial p data isStreaming =
     p\<lparr> p_type := b_type data,
        p_content := b_content data,
        p_filePath := (case b_filePath data of None \<Rightarrow> p_filePath p | Some x \<Rightarrow> Some x),
        p_operation := (case b_operation data of None \<Rightarrow> p_operation p | Some x \<Rightarrow> Some x),
        p_status := (case b_status data of None \<Rightarrow> p_status p | Some st \<Rightarrow> Some (Foreign st)),
        p_executed := (\<not> isStreaming) \<rparr>"

definition partialOf :: "BoltAction \<Rightarrow> bool \<Rightarrow> PartialEntry" where
  "partialOf data isStreaming =
     \<lparr> p_type = b_type data, p_content = b_content data, p_filePath = b_filePath data,
       p_operation = b_operation data, p_status = map_option Foreign (b_status data),
       p_error = None, p_executed = (\<not> isStreaming) \<rparr>"

text \<open>
  What \<open>runAction\<close> can throw. The helper \<open>unreachable\<close> is imported from a file that
  is not part of the sources at hand, so it is an argument: it maps its message to the
  error it throws, or to \<open>None\<close> if it returns. If it returns, reading \<open>executed\<close> of
  \<open>undefined\<close> throws a \<open>TypeError\<close>.
\<close>

datatype RunnerError = Unreachable string | TypeError

text \<open>
  \<open>runAction\<close>, up to the point where it awaits the chain: the result is what was
  thrown, if anything, and the runner afterwards. \<open>unreachable\<close> is called only when
  the lookup gives \<open>undefined\<close>: the id has no entry and names no inherited property.
  For an inherited property \<open>executed\<close> and \<open>type\<close> are \<open>undefined\<close>, so a streaming
  call returns and any other call stores a partial entry and appends the execution.
\<close>

definition runAction ::
  "(string \<Rightarrow> RunnerError option) \<Rightarrow> string \<Rightarrow> BoltAction \<Rightarrow> bool \<Rightarrow> ActionRunner
   \<Rightarrow> RunnerError option \<times> ActionRunner" where
  "runAction unreachable actionId data isStreaming r =
     (case actions r actionId of
        None \<Rightarrow>
          (case partials r actionId of
             Some p \<Rightarrow>
               if p_executed p then (None, r)
               else if isStreaming \<and> p_type p \<noteq> File then (None, r)
               else (None, r\<lparr> partials := (partials r)(actionId \<mapsto> mergePartial p data isStreaming),
                              chain := chain r @ [Execute actionId isStreaming] \<rparr>)
           | None \<Rightarrow>
               if actionId \<in> set objectPrototypeKeys then
                 (if isStreaming then (None, r)
                  else (None, r\<lparr> partials := (partials r)(actionId \<mapsto> partialOf data isStreaming),
                                 chain := chain r @ [Execute actionId isStreaming] \<rparr>))
               else
                 (case unreachable (''Action '' @ actionId @ '' not found'') of
                    Some e \<Rightarrow> (Some e, r)
                  | None \<Rightarrow> (Some TypeError, r)))
      | Some action \<Rightarrow>
          if executed action then (None, r)
          else if isStreaming \<and> atype action \<noteq> File then (None, r)
          else
            let r1 = updateAction actionId (\<lambda>_. mergeAction action data isStreaming) r
            in (None, r1\<lparr> chain := chain r1 @ [Execute actionId isStreaming] \<rparr>))"

text \<open>
  The sandbox decides how the operation behind an action ends: it returns, it throws an
  \<open>ActionCommandError\<close> (header and output), or it throws another error (message).
  \<open>abortDuring\<close> says that the entry's \<open>abort\<close> was called while the operation was
  awaited; \<open>buildDir\<close> and \<open>buildLog\<close> are what a successful build leaves behind.
\<close>

datatype OpOutcome = Returned | ThrewCommandError string string | ThrewError string

record ExecEnv =
  outcome :: OpOutcome
  abortDuring :: bool
  buildDir :: string
  buildLog :: string

definition thrownMessage :: "OpOutcome \<Rightarrow> string option" where
  "thrownMessage oc =
     (case oc of
        Returned \<Rightarrow> None
      | ThrewCommandError header out \<Rightarrow>
          Some (''Failed To Execute Shell Command: '' @ header @ [CHR 0x0A, CHR 0x0A] @ ''Output:'' @ [CHR 0x0A] @ out)
      | ThrewError msg \<Rightarrow> Some msg)"

text \<open>
  \<open>handleSupabaseAction\<close>: \<open>Inl\<close> is the message of the error it throws. A migration
  without a file path and an unknown operation throw by themselves; the file write of a
  migration ends as the sandbox decides. It reads \<open>operation\<close> and \<open>filePath\<close> of the
  action it is given (\<open>supabaseOperation\<close>).
\<close>

definition supabaseOperation :: "string option \<Rightarrow> string option \<Rightarrow> ExecEnv \<Rightarrow> string + unit" where
  "supabaseOperation opn path env =
     (case opn of
        None \<Rightarrow> Inl ''Unknown operation: undefined''
      | Some op \<Rightarrow>
          if op = ''migration'' then
            (case path of
               None \<Rightarrow> Inl ''Migration requires a filePath''
             | Some p \<Rightarrow>
                 if p = [] then Inl ''Migration requires a filePath''
                 else (case thrownMessage (outcome env) of None \<Rightarrow> Inr () | Some msg \<Rightarrow> Inl msg))
          else if op = ''query'' then Inr ()
          else Inl (''Unknown operation: '' @ op))"

definition handleSupabaseAction :: "ActionState \<Rightarrow> ExecEnv \<Rightarrow> string + unit" where
  "handleSupabaseAction action env = supabaseOperation (operation action) (filePath action) env"

text \<open>The entry that \<open>#runAutomatedTests\<close> stores under \<open><id>-autotest\<close>.\<close>

definition autotestEntry :: ActionState where
  "autotestEntry =
     \<lparr> atype = Test, content = ''Running automated tests after build...'', filePath = None,
       operation = None, astatus = Pending, aerror = None, executed = False, aborted = False \<rparr>"

text \<open>
  The end of \<open>#executeAction\<close> when nothing was thrown, and its \<open>catch\<close> block. The
  \<open>catch\<close> block leaves the status alone when the signal is aborted; otherwise it
  marks the action failed and rethrows only an \<open>ActionCommandError\<close>.
\<close>

definition isAborted :: "string \<Rightarrow> ActionRunner \<Rightarrow> bool" where
  "isAborted actionId r = (case actions r actionId of None \<Rightarrow> False | Some a \<Rightarrow> aborted a)"

definition finishAction :: "string \<Rightarrow> bool \<Rightarrow> ActionRunner \<Rightarrow> ActionRunner \<times> OpOutcome option" where
  "finishAction actionId isStreaming r =
     (updateAction actionId
        (setStatus (if isStreaming then Running else if isAborted actionId r then Aborted else Complete)) r,
      None)"

definition catchAction :: "string \<Rightarrow> OpOutcome \<Rightarrow> ActionRunner \<Rightarrow> ActionRunner \<times> OpOutcome option" where
  "catchAction actionId thrown r =
     (if isAborted actionId r then (r, None)
      else
        let r1 = updateAction actionId (setFailed ''Action failed'') r
        in (case thrown of
              ThrewCommandError header out \<Rightarrow> (r1, Some thrown)
            | _ \<Rightarrow> (r1, None)))"

text \<open>
  \<open>#executeAction\<close> on a partial entry. The operation runs as for any entry. The
  status update after it reads \<open>abortSignal.aborted\<close> unless \<open>isStreaming\<close> is set,
  and so does the \<open>catch\<close> block: both throw a \<open>TypeError\<close>, which leaves the function
  and reaches the chain with the status still \<open>running\<close>. Only the \<open>supabase\<close> branch
  that fails and the detached \<open>start\<close> return before that. The entry has no \<open>abort\<close>,
  so \<open>abortDuring\<close> has nothing to call.
\<close>

definition finishPartial :: "string \<Rightarrow> bool \<Rightarrow> ActionRunner \<Rightarrow> ActionRunner \<times> OpOutcome option" where
  "finishPartial actionId isStreaming r =
     (if isStreaming then (updatePartial actionId (\<lambda>p. p\<lparr> p_status := Some Running \<rparr>) r, None)
      else (r, Some (ThrewError ''TypeError'')))"

definition executePartial ::
  "ExecEnv \<Rightarrow> string \<Rightarrow> bool \<Rightarrow> PartialEntry \<Rightarrow> ActionRunner \<Rightarrow> ActionRunner \<times> OpOutcome option" where
  "executePartial env actionId isStreaming action r =
     (let r1 = updatePartial actionId (\<lambda>p. p\<lparr> p_status := Some Running \<rparr>) r
      in (case p_type action of
            Supabase \<Rightarrow>
              (case supabaseOperation (p_operation action) (p_filePath action) env of
                 Inl msg \<Rightarrow>
                   (updatePartial actionId (\<lambda>p. p\<lparr> p_status := Some Failed, p_error := Some msg \<rparr>) r1, None)
               | Inr _ \<Rightarrow> finishPartial actionId isStreaming r1)
          | Start \<Rightarrow> (r1, None)
          | Build \<Rightarrow>
              (case outcome env of
                 Returned \<Rightarrow>
                   finishPartial actionId isStreaming
                     (r1\<lparr> buildOutput := Some (buildDir env, buildLog env),
                          actions := (actions r1)(actionId @ ''-autotest'' \<mapsto> autotestEntry),
                          partials := (partials r1)(actionId @ ''-autotest'' := None) \<rparr>)
               | thrown \<Rightarrow> (r1, Some (ThrewError ''TypeError'')))
          | Validate \<Rightarrow> finishPartial actionId isStreaming r1
          | Feedback \<Rightarrow> finishPartial actionId isStreaming r1
          | _ \<Rightarrow>
              (case outcome env of
                 Returned \<Rightarrow> finishPartial actionId isStreaming r1
               | thrown \<Rightarrow> (r1, Some (ThrewError ''TypeError'')))))"

text \<open>
  \<open>#executeAction\<close>. The result is the runner afterwards and the error rethrown to
  the chain, if any. The operation of a \<open>start\<close> action is not awaited: the function
  returns while the process runs, and \<open>settleStart\<close> below is what happens when it ends.
  \<open>#runAutomatedTests\<close> stores its entry with \<open>setKey\<close>, which replaces whatever the
  store had under that id.
\<close>

definition executeAction :: "ExecEnv \<Rightarrow> string \<Rightarrow> bool \<Rightarrow> ActionRunner \<Rightarrow> ActionRunner \<times> OpOutcome option" where
  "executeAction env actionId isStreaming r =
     (case actions r actionId of
        None \<Rightarrow>
          (case partials r actionId of
             None \<Rightarrow> (r, Some (ThrewError ''TypeError''))
           | Some p \<Rightarrow> executePartial env actionId isStreaming p r)
      | Some action \<Rightarrow>
          let r1 = updateAction actionId (setStatus Running) r;
              r2 = (if abortDuring env then abort actionId r1 else r1)
          in (case atype action of
                Supabase \<Rightarrow>
                  (case handleSupabaseAction action env of
                     Inl msg \<Rightarrow> (updateAction actionId (setFailed msg) r2, None)
                   | Inr _ \<Rightarrow> finishAction actionId isStreaming r2)
              | Start \<Rightarrow> (r2, None)
              | Build \<Rightarrow>
                  (case outcome env of
                     Returned \<Rightarrow>
                       finishAction actionId isStreaming
                         (r2\<lparr> buildOutput := Some (buildDir env, buildLog env),
                              actions := (actions r2)(actionId @ ''-autotest'' \<mapsto> autotestEntry),
                              partials := (partials r2)(actionId @ ''-autotest'' := None) \<rparr>)
                   | thrown \<Rightarrow> catchAction actionId thrown r2)
              | Validate \<Rightarrow> finishAction actionId isStreaming r2
              | Feedback \<Rightarrow> finishAction actionId isStreaming r2
              | _ \<Rightarrow>
                  (case outcome env of
                     Returned \<Rightarrow> finishAction actionId isStreaming r2
                   | thrown \<Rightarrow> catchAction actionId thrown r2)))"

definition settleStart :: "OpOutcome \<Rightarrow> string \<Rightarrow> ActionRunner \<Rightarrow> ActionRunner" where
  "settleStart oc actionId r =
     (case oc of
        Returned \<Rightarrow>
          updatePartial actionId (\<lambda>p. p\<lparr> p_status := Some Complete \<rparr>)
            (updateAction actionId (setStatus Complete) r)
      | _ \<Rightarrow> if isAborted actionId r then r else updateAction actionId (setFailed ''Action failed'') r)"

text \<open>
  One link of the chain. The \<open>.catch\<close> that \<open>runAction\<close> appends after each execution
  logs the error and resolves, so the next link runs whatever the execution threw.
\<close>

definition chainStep :: "ExecEnv \<Rightarrow> ActionRunner \<Rightarrow> ActionRunner" where
  "chainStep env r =
     (case chain r of
        [] \<Rightarrow> r
      | MarkRunning actionId # rest \<Rightarrow> updateAction actionId (setStatus Running) (r\<lparr> chain := rest \<rparr>)
      | Execute actionId isStreaming # rest \<Rightarrow>
          (case executeAction env actionId isStreaming (r\<lparr> chain := rest \<rparr>) of
             (r1, None) \<Rightarrow> r1
           | (r1, Some thrown) \<Rightarrow> r1))"

fun runChain :: "ExecEnv list \<Rightarrow> ActionRunner \<Rightarrow> ActionRunner" where
  "runChain [] r = r"
| "runChain (env # envs) r = runChain envs (chainStep env r)"

text \<open>
  An execution ends in \<open>complete\<close> by its own means: the action is not aborted before or
  during the execution, it is not a detached \<open>start\<close>, and its operation returns.
\<close>

definition runsNormally :: "ActionState \<Rightarrow> ExecEnv \<Rightarrow> bool" where
  "runsNormally action env =
     (\<not> aborted action \<and> \<not> abortDuring env \<and>
      (case atype action of
         Start \<Rightarrow> False
       | Supabase \<Rightarrow> handleSupabaseAction action env = Inr ()
       | Validate \<Rightarrow> True
       | Feedback \<Rightarrow> True
       | _ \<Rightarrow> outcome env = Returned))"

definition statusOf :: "string \<Rightarrow> ActionRunner \<Rightarrow> ActionStatus option" where
  "statusOf actionId r = map_option astatus (actions r actionId)"

fun itemId :: "ChainItem \<Rightarrow> string" where
  "itemId (MarkRunning actionId) = actionId"
| "itemId (Execute actionId isStreaming) = actionId"

text \<open>Every callback waiting on the chain refers to a stored entry.\<close>

definition chain_registered :: "ActionRunner \<Rightarrow> bool" where
  "chain_registered r = (\<forall>it\<in>set (chain r). itemId it \<in> dom (actions r) \<union> dom (partials r))"

text \<open>An id has an entry or a partial entry, never both.\<close>

definition one_shape :: "ActionRunner \<Rightarrow> bool" where
  "one_shape r = (dom (actions r) \<inter> dom (partials r) = {})"

section \<open>The subagent manager\<close>

text \<open>
  \<open>SubagentManager\<close> of \<open>agents/SubagentManager.ts\<close>. A task carries the fields the
  manager reads; \<open>priority\<close> is optional. An agent is its name (\<open>getInfo().name\<close>), its
  \<open>canHandle\<close> predicate and its \<open>execute\<close> method, whose result is \<open>Inl\<close> of the
  message when it throws.
\<close>

datatype Priority = Low | Medium | High | Critical

record SubagentTask =
  task_id :: string
  task_type :: string
  description :: string
  priority :: "Priority option"

record SubagentResult =
  taskId :: string
  sr_agentName :: string
  success :: bool
  errors :: "string list option"
  sr_timestamp :: int

record Subagent =
  agent_name :: string
  canHandle :: "SubagentTask \<Rightarrow> bool"
  execute :: "SubagentTask \<Rightarrow> string + SubagentResult"

datatype DelegationStatus = D_pending | D_running | D_completed | D_failed

record TaskDelegation =
  task :: SubagentTask
  agent :: string
  d_status :: DelegationStatus
  d_result :: "SubagentResult option"
  startTime :: "int option"
  endTime :: "int option"

text \<open>
  The manager's two \<open>Map\<close>s keep insertion order, so they are association lists,
  written with \<open>mapSet\<close>.
\<close>

record SubagentManager =
  agents :: "(string \<times> Subagent) list"
  activeTasks :: "(string \<times> TaskDelegation) list"
  completedTasks :: "TaskDelegation list"

definition mapDelete :: "'k \<Rightarrow> ('k \<times> 'v) list \<Rightarrow> ('k \<times> 'v) list" where
  "mapDelete k kvs = filter (\<lambda>kv. fst kv \<noteq> k) kvs"

definition registerAgent :: "Subagent \<Rightarrow> SubagentManager \<Rightarrow> SubagentManager" where
  "registerAgent a m = m\<lparr> agents := mapSet (agent_name a) a (agents m) \<rparr>"

text \<open>
  \<open>calculateAgentScore\<close>. The score is a fraction; the arithmetic of the runtime's
  numbers is taken as exact.
\<close>

definition isBusy :: "SubagentManager \<Rightarrow> Subagent \<Rightarrow> bool" where
  "isBusy m a = list_ex (\<lambda>t. agent t = agent_name a) (map snd (activeTasks m))"

definition agentTasks :: "SubagentManager \<Rightarrow> Subagent \<Rightarrow> TaskDelegation list" where
  "agentTasks m a = filter (\<lambda>t. agent t = agent_name a) (completedTasks m)"

definition calculateAgentScore :: "SubagentManager \<Rightarrow> Subagent \<Rightarrow> SubagentTask \<Rightarrow> rat" where
  "calculateAgentScore m a t =
     (let score0 = 100;
          score1 = (if isBusy m a then score0 - 20 else score0);
          score2 = (if length (agentTasks m a) > 0
                    then score1 + (of_nat (length (filter (\<lambda>d. d_status d = D_completed) (agentTasks m a)))
                                    / of_nat (length (agentTasks m a))) * 20
                    else score1)
      in if priority t = Some Critical then score2 + 30
         else if priority t = Some High then score2 + 20
         else score2)"

text \<open>
  \<open>findSuitableAgent\<close>: the capable agents in iteration order, each with its score,
  sorted by \<open>b.score - a.score\<close>; \<open>Array.prototype.sort\<close> is stable, as \<open>sort_key\<close>
  is, and the key \<open>- score\<close> puts the highest score first.
\<close>

definition findSuitableAgent :: "SubagentManager \<Rightarrow> SubagentTask \<Rightarrow> Subagent option" where
  "findSuitableAgent m t =
     (let suitableAgents =
            map (\<lambda>a. (a, calculateAgentScore m a t))
              (filter (\<lambda>a. canHandle a t) (map snd (agents m)))
      in if length suitableAgents = 0 then None
         else Some (fst (hd (sort_key (\<lambda>p. - snd p) suitableAgents))))"

text \<open>
  \<open>delegateTask\<close> for one task, from the call to the settled result: the clock is
  an argument, the result is what the caller receives and the manager afterwards.
\<close>

definition delegateTask :: "int \<Rightarrow> SubagentTask \<Rightarrow> SubagentManager \<Rightarrow> SubagentResult \<times> SubagentManager" where
  "delegateTask now t m =
     (case findSuitableAgent m t of
        None \<Rightarrow>
          (\<lparr> taskId = task_id t, sr_agentName = ''SubagentManager'', success = False,
             errors = Some [''No suitable agent found for this task type''], sr_timestamp = now \<rparr>, m)
      | Some a \<Rightarrow>
          let delegation = \<lparr> task = t, agent = agent_name a, d_status = D_running, d_result = None,
                              startTime = Some now, endTime = None \<rparr>;
              m1 = m\<lparr> activeTasks := mapSet (task_id t) delegation (activeTasks m) \<rparr>
          in (case execute a t of
                Inr res \<Rightarrow>
                  (res,
                   m1\<lparr> activeTasks := mapDelete (task_id t) (activeTasks m1),
                       completedTasks := completedTasks m1 @
                         [delegation\<lparr> d_status := (if success res then D_completed else D_failed),
                                      d_result := Some res, endTime := Some now \<rparr>] \<rparr>)
              | Inl msg \<Rightarrow>
                  (\<lparr> taskId = task_id t, sr_agentName = agent_name a, success = False,
                     errors = Some [msg], sr_timestamp = now \<rparr>,
                   m1\<lparr> activeTasks := mapDelete (task_id t) (activeTasks m1),
                       completedTasks := completedTasks m1 @
                         [delegation\<lparr> d_status := D_failed, endTime := Some now \<rparr>] \<rparr>)))"

text \<open>The scoring rule in the words of the specification, to compare with.\<close>

definition spec_successRate :: "SubagentManager \<Rightarrow> Subagent \<Rightarrow> rat" where
  "spec_successRate m a =
     (if agentTasks m a = [] then 0
      else of_nat (length (filter (\<lambda>d. d_status d = D_completed) (agentTasks m a)))
             / of_nat (length (agentTasks m a)))"

definition spec_priorityBoost :: "SubagentTask \<Rightarrow> rat" where
  "spec_priorityBoost t =
     (if priority t = Some Critical then 30 else if priority t = Some High then 20 else 0)"

definition spec_score :: "SubagentManager \<Rightarrow> Subagent \<Rightarrow> SubagentTask \<Rightarrow> rat" where
  "spec_score m a t =
     100 - (if isBusy m a then 20 else 0) + 20 * spec_successRate m a + spec_priorityBoost t"

section \<open>The error monitor\<close>

text \<open>
  \<open>ErrorMonitor.monitorOutput\<close> of \<open>runtime/error-monitor.ts\<close> matches three regular
  expressions against the output. Each is written out as the backtracking search the
  regular expression stands for: \<open>match\<close> without the \<open>g\<close> flag takes the leftmost
  start position, a lazy group grows one character at a time, a greedy \<open>+\<close> gives
  characters back from the longest run. Characters are code units below 256, so the
  classes are: \<open>\d\<close> the ten digits, \<open>\s\<close> tab, line feed, vertical tab, form feed,
  carriage return, space and no-break space, and \<open>.\<close> everything but line feed and
  carriage return.
\<close>

definition isLineTerminator :: "char \<Rightarrow> bool" where
  "isLineTerminator c = (c \<in> set [CHR 0x0A, CHR 0x0D])"

definition isSpace :: "char \<Rightarrow> bool" where
  "isSpace c = (c \<in> set [CHR 0x09, CHR 0x0A, CHR 0x0B, CHR 0x0C, CHR 0x0D, CHR 0x20, CHR 0xA0])"

text \<open>A literal, and a greedy \<open>+\<close> over a class that the next literal is outside of.\<close>

definition expect :: "string \<Rightarrow> string \<Rightarrow> string option" where
  "expect lit s = (if prefix lit s then Some (drop (length lit) s) else None)"

definition many1 :: "(char \<Rightarrow> bool) \<Rightarrow> string \<Rightarrow> (string \<times> string) option" where
  "many1 P s = (if takeWhile P s = [] then None else Some (takeWhile P s, dropWhile P s))"

subsection \<open>The type checker's pattern\<close>

text \<open>
  \<open>/(.*?)\((\d+),(\d+)\):\s+error\s+TS(\d+):\s+(.+)/\<close>. The end \<open>\s+(.+)\<close>: the
  spaces are tried from the longest run down to one, the message is then the longest
  run without a line terminator, which must not be empty.
\<close>

fun backtrackMessage :: "nat \<Rightarrow> string \<Rightarrow> string option" where
  "backtrackMessage 0 s = None"
| "backtrackMessage (Suc k) s =
     (if takeWhile (\<lambda>c. \<not> isLineTerminator c) (drop (Suc k) s) \<noteq> []
      then Some (takeWhile (\<lambda>c. \<not> isLineTerminator c) (drop (Suc k) s))
      else backtrackMessage k s)"

definition spaceThenMessage :: "string \<Rightarrow> string option" where
  "spaceThenMessage s = backtrackMessage (length (takeWhile isSpace s)) s"

text \<open>From the opening parenthesis on: line, column, error code and message.\<close>

definition tsTail :: "string \<Rightarrow> (string \<times> string \<times> string \<times> string) option" where
  "tsTail s = do {
     s1 \<leftarrow> expect ''('' s;
     (line, s2) \<leftarrow> many1 isDigit s1;
     s3 \<leftarrow> expect '','' s2;
     (col, s4) \<leftarrow> many1 isDigit s3;
     s5 \<leftarrow> expect ''):'' s4;
     (w1, s6) \<leftarrow> many1 isSpace s5;
     s7 \<leftarrow> expect ''error'' s6;
     (w2, s8) \<leftarrow> many1 isSpace s7;
     s9 \<leftarrow> expect ''TS'' s8;
     (code, s10) \<leftarrow> many1 isDigit s9;
     s11 \<leftarrow> expect '':'' s10;
     msg \<leftarrow> spaceThenMessage s11;
     Some (line, col, code, msg)
   }"

text \<open>The lazy group \<open>(.*?)\<close> in front, and the search over the start positions.\<close>

fun lazyFile :: "string \<Rightarrow> string \<Rightarrow> (string \<times> string \<times> string \<times> string \<times> string) option" where
  "lazyFile acc [] = (case tsTail [] of Some g \<Rightarrow> Some (acc, g) | None \<Rightarrow> None)"
| "lazyFile acc (c # cs) =
     (case tsTail (c # cs) of
        Some g \<Rightarrow> Some (acc, g)
      | None \<Rightarrow> if isLineTerminator c then None else lazyFile (acc @ [c]) cs)"

fun tsErrorMatch :: "string \<Rightarrow> (string \<times> string \<times> string \<times> string \<times> string) option" where
  "tsErrorMatch [] = lazyFile [] []"
| "tsErrorMatch (c # cs) =
     (case lazyFile [] (c # cs) of Some m \<Rightarrow> Some m | None \<Rightarrow> tsErrorMatch cs)"

subsection \<open>The bundler's pattern\<close>

text \<open>
  \<open>/\[plugin:vite:.*?\]\s+(.+?):(\d+):(\d+)[\s\S]*?$/m\<close>. After the second number
  the lazy \<open>[\s\S]*?$\<close> always finds an end of line, so the match is decided by then.
\<close>

definition viteLocation :: "string \<Rightarrow> (string \<times> string) option" where
  "viteLocation s = do {
     s1 \<leftarrow> expect '':'' s;
     (line, s2) \<leftarrow> many1 isDigit s1;
     s3 \<leftarrow> expect '':'' s2;
     (col, s4) \<leftarrow> many1 isDigit s3;
     Some (line, col)
   }"

fun lazyViteFile :: "string \<Rightarrow> string \<Rightarrow> (string \<times> string \<times> string) option" where
  "lazyViteFile acc [] = None"
| "lazyViteFile acc (c # cs) =
     (if isLineTerminator c then None
      else case viteLocation cs of
             Some (line, col) \<Rightarrow> Some (acc @ [c], line, col)
           | None \<Rightarrow> lazyViteFile (acc @ [c]) cs)"

fun backtrackSpaces :: "nat \<Rightarrow> string \<Rightarrow> (string \<times> string \<times> string) option" where
  "backtrackSpaces 0 s = None"
| "backtrackSpaces (Suc k) s =
     (case lazyViteFile [] (drop (Suc k) s) of
        Some m \<Rightarrow> Some m
      | None \<Rightarrow> backtrackSpaces k s)"

fun lazyBracket :: "string \<Rightarrow> (string \<times> string \<times> string) option" where
  "lazyBracket [] = None"
| "lazyBracket (c # cs) =
     (case (if c = CHR '']'' then backtrackSpaces (length (takeWhile isSpace cs)) cs else None) of
        Some m \<Rightarrow> Some m
      | None \<Rightarrow> if isLineTerminator c then None else lazyBracket cs)"

fun viteErrorMatch :: "string \<Rightarrow> (string \<times> string \<times> string) option" where
  "viteErrorMatch [] = None"
| "viteErrorMatch (c # cs) =
     (case Option.bind (expect ''[plugin:vite:'' (c # cs)) lazyBracket of
        Some m \<Rightarrow> Some m
      | None \<Rightarrow> viteErrorMatch cs)"

subsection \<open>The import patterns\<close>

text \<open>
  \<open>/Cannot resolve '(.+?)'/\<close> and \<open>/in '(.+?)'/\<close>: a literal, then the shortest
  non-empty run without a line terminator that a quote follows.
\<close>

fun lazyQuoted :: "string \<Rightarrow> string \<Rightarrow> string option" where
  "lazyQuoted acc [] = None"
| "lazyQuoted acc (c # cs) =
     (if isLineTerminator c then None
      else if prefix [CHR 0x27] cs then Some (acc @ [c])
      else lazyQuoted (acc @ [c]) cs)"

fun quotedAfter :: "string \<Rightarrow> string \<Rightarrow> string option" where
  "quotedAfter lit [] = None"
| "quotedAfter lit (c # cs) =
     (case Option.bind (expect lit (c # cs)) (lazyQuoted []) of
        Some m \<Rightarrow> Some m
      | None \<Rightarrow> quotedAfter lit cs)"

definition importError :: "string \<Rightarrow> bool" where
  "importError s =
     (js_includes s ''Cannot find module'' \<or> js_includes s ''Module not found''
      \<or> js_includes s ''Failed to resolve import'')"

subsection \<open>Numbers, lines and hints\<close>

text \<open>\<open>split('\n')\<close> and \<open>trim\<close>.\<close>

fun splitLines :: "string \<Rightarrow> string \<Rightarrow> string list" where
  "splitLines acc [] = [acc]"
| "splitLines acc (c # cs) =
     (if c = CHR 0x0A then acc # splitLines [] cs else splitLines (acc @ [c]) cs)"

definition trim :: "string \<Rightarrow> string" where
  "trim s = rev (dropWhile isSpace (rev (dropWhile isSpace s)))"

definition stripProject :: "string \<Rightarrow> string" where
  "stripProject f = (if prefix ''/home/project'' f then drop (length ''/home/project'') f else f)"

fun firstIndicator :: "string list \<Rightarrow> string option" where
  "firstIndicator [] = None"
| "firstIndicator (l # ls) =
     (if js_includes l ''Unexpected token'' then
        Some ''Syntax Error: Unexpected token - likely missing closing bracket, parenthesis, or incomplete statement''
      else if js_includes l ''Unexpected identifier'' then
        Some ''Syntax Error: Unexpected identifier - check for missing commas or operators''
      else if js_includes l ''Declaration or statement expected'' then
        Some ''Syntax Error: Declaration or statement expected - check for incomplete code blocks''
      else firstIndicator ls)"

definition extractErrorMessage :: "string \<Rightarrow> nat \<Rightarrow> string" where
  "extractErrorMessage output lineNumber =
     (let lines = splitLines [] output
      in case firstIndicator lines of
           Some m \<Rightarrow> m
         | None \<Rightarrow>
             if lineNumber \<noteq> 0 \<and> length lines > lineNumber
             then ''Error at line '' @ numberToString lineNumber @ '': '' @ trim (lines ! (lineNumber - 1))
             else ''Compilation error detected'')"

definition generateSuggestion :: "string \<Rightarrow> string \<Rightarrow> string" where
  "generateSuggestion errorMessage fullError =
     (if js_includes fullError ''import'' \<and> js_includes fullError ''Unexpected token'' then
        ''Complete the import statement. Ensure all imported items are listed and the statement ends with a proper source module.''
      else if js_includes errorMessage ''closing'' then
        ''Add the missing closing bracket, brace, or parenthesis.''
      else if js_includes fullError ''JSX'' then
        ''Check JSX syntax - ensure all tags are properly closed and attributes are correctly formatted.''
      else ''Review the syntax at the specified line and fix any formatting issues.'')"

definition generateTypeScriptSuggestion :: "string \<Rightarrow> string \<Rightarrow> string" where
  "generateTypeScriptSuggestion errorCode message =
     (case map_of
        [(''2307'', ''Install the missing module or check the import path''),
         (''2304'', ''Define the variable or import it from the appropriate module''),
         (''2339'', ''Check if the property exists on the type or add it to the interface''),
         (''2345'', ''Fix the type mismatch - ensure the argument types match the expected parameters''),
         (''2322'', ''Fix the type assignment - the types are not compatible'')] errorCode of
        Some hint \<Rightarrow> hint
      | None \<Rightarrow> ''Fix the TypeScript error based on the message'')"

subsection \<open>\<open>monitorOutput\<close>\<close>

definition viteErrors :: "int \<Rightarrow> string \<Rightarrow> CompilationError list" where
  "viteErrors now output =
     (case viteErrorMatch output of
        None \<Rightarrow> []
      | Some (file, line, col) \<Rightarrow>
          [\<lparr> ce_type = E_syntax, ce_file = stripProject file,
             ce_line = Some (parseInt line), ce_column = Some (parseInt col),
             ce_message = extractErrorMessage output (parseInt line), ce_rawError = output,
             ce_suggestion = Some (generateSuggestion (extractErrorMessage output (parseInt line)) output),
             ce_timestamp = now \<rparr>])"

definition tsErrors :: "int \<Rightarrow> string \<Rightarrow> CompilationError list" where
  "tsErrors now output =
     (case tsErrorMatch output of
        None \<Rightarrow> []
      | Some (file, line, col, errorCode, message) \<Rightarrow>
          [\<lparr> ce_type = E_typescript, ce_file = stripProject file,
             ce_line = Some (parseInt line), ce_column = Some (parseInt col),
             ce_message = ''TS'' @ errorCode @ '': '' @ message, ce_rawError = output,
             ce_suggestion = Some (generateTypeScriptSuggestion errorCode message),
             ce_timestamp = now \<rparr>])"

definition importErrors :: "int \<Rightarrow> string \<Rightarrow> CompilationError list" where
  "importErrors now output =
     (if importError output then
        [\<lparr> ce_type = E_import,
           ce_file = (case quotedAfter (''in '' @ [CHR 0x27]) output of
                        Some f \<Rightarrow> stripProject f | None \<Rightarrow> ''unknown''),
           ce_line = None, ce_column = None,
           ce_message = ''Import error: '' @
               (case quotedAfter (''Cannot resolve '' @ [CHR 0x27]) output of
                  Some m \<Rightarrow> m | None \<Rightarrow> ''module'') @ '' not found'',
           ce_rawError = output,
           ce_suggestion = Some ''Check that the import path is correct and the module is installed'',
           ce_timestamp = now \<rparr>]
      else [])"

text \<open>
  The result is the errors detected in this call and the buffer afterwards; the clock
  is an argument.
\<close>

definition monitorOutput :: "int \<Rightarrow> string \<Rightarrow> CompilationError list \<Rightarrow> CompilationError list \<times> CompilationError list" where
  "monitorOutput now output errorBuffer =
     (let detectedErrors = viteErrors now output @ tsErrors now output @ importErrors now output
      in (detectedErrors, errorBuffer @ detectedErrors))"

section \<open>The test feedback parser's wire format\<close>

text \<open>
  A report as the value that the runtime hands to \<open>JSON.stringify\<close>: the properties
  that are defined, in the order they are set. A property whose value is \<open>undefined\<close>
  is left out, as \<open>JSON.stringify\<close> leaves it out: the value does not tell an
  undefined property from an absent one.
\<close>

definition statusName :: "TestStatus \<Rightarrow> string" where
  "statusName st =
     (case st of TestPassed \<Rightarrow> ''passed'' | TestFailed \<Rightarrow> ''failed''
      | TestSkipped \<Rightarrow> ''skipped'' | TestWarning \<Rightarrow> ''warning'')"

definition optional :: "string \<Rightarrow> ('a \<Rightarrow> json) \<Rightarrow> 'a option \<Rightarrow> (string \<times> json) list" where
  "optional key f v = (case v of None \<Rightarrow> [] | Some x \<Rightarrow> [(key, f x)])"

definition resultToJson :: "TestResult \<Rightarrow> json" where
  "resultToJson r =
     JObject ([(''testName'', JString (testName r)), (''status'', JString (statusName (status r)))]
              @ optional ''duration'' JNumber (resultDuration r)
              @ optional ''error'' JString (error r)
              @ optional ''details'' (\<lambda>d. d) (details r)
              @ optional ''screenshot'' JString (screenshot r))"

definition summaryToJson :: "Summary \<Rightarrow> json" where
  "summaryToJson s =
     JObject [(''total'', JNumber (numberOfNat (total s))), (''passed'', JNumber (numberOfNat (passed s))),
              (''failed'', JNumber (numberOfNat (failed s))), (''skipped'', JNumber (numberOfNat (skipped s)))]"

definition reportToJson :: "TestReport \<Rightarrow> json" where
  "reportToJson report =
     JObject ([(''agentName'', JString (agentName report)),
               (''timestamp'', JNumber (timestamp report)),
               (''duration'', JNumber (duration report)),
               (''results'', JArray (map resultToJson (results report))),
               (''summary'', summaryToJson (summary report))]
              @ optional ''suggestions'' (\<lambda>ss. JArray (map JString ss)) (suggestions report)
              @ optional ''metadata'' (\<lambda>d. d) (metadata report))"

text \<open>
  A message can hold any text. For the parser a string is therefore the list of its
  UTF-16 code units, as numbers; \<open>units\<close> gives the code units of a literal.
\<close>

definition units :: "string \<Rightarrow> nat list" where
  "units s = map of_char s"

definition TEST_RESULT_TAG_OPEN :: "nat list" where
  "TEST_RESULT_TAG_OPEN = units ''<boltTestResult''"

definition TEST_RESULT_TAG_CLOSE :: "nat list" where
  "TEST_RESULT_TAG_CLOSE = units ''</boltTestResult>''"

text \<open>
  \<open>indexOf\<close> and \<open>lastIndexOf\<close> give \<open>None\<close> for the runtime's \<open>-1\<close>;
  \<open>substring\<close> swaps its bounds when they are out of order and stops at the end of the
  string.
\<close>

fun indexOf :: "'a list \<Rightarrow> 'a list \<Rightarrow> nat option" where
  "indexOf [] pat = (if pat = [] then Some 0 else None)"
| "indexOf (c # cs) pat = (if prefix pat (c # cs) then Some 0 else map_option Suc (indexOf cs pat))"

fun lastIndexOf :: "'a list \<Rightarrow> 'a list \<Rightarrow> nat option" where
  "lastIndexOf [] pat = (if pat = [] then Some 0 else None)"
| "lastIndexOf (c # cs) pat =
     (case lastIndexOf cs pat of
        Some i \<Rightarrow> Some (Suc i)
      | None \<Rightarrow> if prefix pat (c # cs) then Some 0 else None)"

definition substring :: "'a list \<Rightarrow> nat \<Rightarrow> nat \<Rightarrow> 'a list" where
  "substring s a b = take (max a b - min a b) (drop (min a b) s)"

text \<open>
  \<open>JSON.parse\<close> and \<open>JSON.stringify\<close> belong to the runtime, not to the parser. The
  two functions of the parser take them as arguments, for any type of values: what is
  proved about them holds for the runtime's pair, and the JSON model above gives the
  pair at which they are evaluated (\<open>stringifyUnits\<close> and \<open>parseUnits\<close> below).

  \<open>TestFeedbackParser.parseTestResults\<close>. The result is the parsed value (the cast
  to \<open>TestReport\<close> checks nothing), \<open>None\<close> for \<open>null\<close>, which is also what the
  \<open>catch\<close> block returns when \<open>JSON.parse\<close> throws. Where the source adds one to
  \<open>-1\<close> the start is \<open>0\<close>, and \<open>substring\<close> treats an end of \<open>-1\<close> as \<open>0\<close>.
\<close>

definition parseTestResults :: "(nat list \<Rightarrow> 'v option) \<Rightarrow> nat list \<Rightarrow> 'v option" where
  "parseTestResults parse message =
     (case indexOf message TEST_RESULT_TAG_OPEN of
        None \<Rightarrow> None
      | Some startIndex \<Rightarrow>
          (case indexOf message TEST_RESULT_TAG_CLOSE of
             None \<Rightarrow> None
           | Some endIndex \<Rightarrow>
               let xmlContent = substring message startIndex (endIndex + length TEST_RESULT_TAG_CLOSE);
                   contentStart = (case indexOf xmlContent (units ''>'') of None \<Rightarrow> 0 | Some i \<Rightarrow> i + 1);
                   contentEnd = (case lastIndexOf xmlContent (units ''<'') of None \<Rightarrow> 0 | Some i \<Rightarrow> i);
                   content = substring xmlContent contentStart contentEnd
               in parse content))"

text \<open>\<open>TestFeedbackParser.formatForMessage\<close>.\<close>

definition formatForMessage :: "('v \<Rightarrow> nat list) \<Rightarrow> 'v \<Rightarrow> nat list" where
  "formatForMessage stringify report =
     TEST_RESULT_TAG_OPEN @ units ''>'' @ units [LF] @ stringify report @ units [LF]
     @ TEST_RESULT_TAG_CLOSE"

text \<open>
  The JSON model as a pair over code units. Its strings, and so its texts, are made of
  the code units below 256; a text with any other code unit denotes no value of the
  model.
\<close>

definition stringifyUnits :: "json \<Rightarrow> nat list" where
  "stringifyUnits v = units (JSON_stringify v)"

definition parseUnits :: "nat list \<Rightarrow> json option" where
  "parseUnits t = (if list_all (\<lambda>u. u < 256) t then JSON_parse (map char_of t) else None)"

section \<open>Notions for the round trip\<close>

text \<open>
  The numbers that JSON represents are the finite ones other than \<open>-0\<close> (which is
  written \<open>0\<close>), here in the form that names a double: digits that end in no zero. A
  value is representable when its numbers are, all the way down, and no object in it
  repeats a key (an object of the runtime never does). A report is representable when
  its numbers and the values it carries in \<open>details\<close> and \<open>metadata\<close> are.
\<close>

fun jsonNumber :: "jsnumber \<Rightarrow> bool" where
  "jsonNumber (Decimal negative s e) = (if s = 0 then e = 0 \<and> \<not> negative else s mod 10 \<noteq> 0)"
| "jsonNumber x = False"

fun representable :: "json \<Rightarrow> bool" where
  "representable (JNumber x) = jsonNumber x"
| "representable (JArray vs) = list_all representable vs"
| "representable (JObject kvs) = (distinct (map fst kvs) \<and> list_all (\<lambda>kv. representable (snd kv)) kvs)"
| "representable v = True"

definition representableReport :: "TestReport \<Rightarrow> bool" where
  "representableReport report =
     (jsonNumber (timestamp report) \<and> jsonNumber (duration report)
      \<and> list_all (\<lambda>r. (case resultDuration r of None \<Rightarrow> True | Some x \<Rightarrow> jsonNumber x)
                       \<and> (case details r of None \<Rightarrow> True | Some d \<Rightarrow> representable d)) (results report)
      \<and> (case metadata report of None \<Rightarrow> True | Some d \<Rightarrow> representable d))"

text \<open>
  What the proof that \<open>JSON.parse\<close> reads back the text of \<open>JSON.stringify\<close> talks
  about: the fuel a value needs, the characters a value starts with, what may follow a
  number, the text of the elements of an array and of the members of an object from
  the first line feed on, and the statement itself for one value at one indentation.
\<close>

fun parseFuel :: "json \<Rightarrow> nat" where
  "parseFuel (JArray vs) = Suc (sum_list (map (\<lambda>v. Suc (parseFuel v)) vs))"
| "parseFuel (JObject kvs) = Suc (sum_list (map (\<lambda>kv. Suc (parseFuel (snd kv))) kvs))"
| "parseFuel v = 1"

definition startsValue :: "char \<Rightarrow> bool" where
  "startsValue c = (c \<in> set ''ntf-0123456789[{'' \<or> c = dquote)"

definition numberEnd :: "string \<Rightarrow> bool" where
  "numberEnd rest = (rest = [] \<or> (\<not> isDigit (hd rest) \<and> hd rest \<notin> set ''.eE''))"

definition elementsText :: "string \<Rightarrow> json list \<Rightarrow> string \<Rightarrow> string" where
  "elementsText ind vs rest =
     [LF] @ joinWith ('','' @ [LF]) (map (\<lambda>v. (ind @ ''  '') @ stringifyIndent (ind @ ''  '') v) vs)
     @ [LF] @ ind @ '']'' @ rest"

definition membersText :: "string \<Rightarrow> (string \<times> json) list \<Rightarrow> string \<Rightarrow> string" where
  "membersText ind kvs rest =
     [LF] @ joinWith ('','' @ [LF])
        (map (\<lambda>kv. (ind @ ''  '') @ quote (fst kv) @ '': '' @ stringifyIndent (ind @ ''  '') (snd kv)) kvs)
     @ [LF] @ ind @ ''}'' @ rest"

definition reads :: "string \<Rightarrow> json \<Rightarrow> bool" where
  "reads ind v =
     (\<forall>fuel pre rest. parseFuel v \<le> fuel \<longrightarrow> list_all isJsonSpace pre \<longrightarrow> numberEnd rest \<longrightarrow>
        parseValue fuel (pre @ stringifyIndent ind v @ rest) = Some (v, rest))"

section \<open>Concrete scenarios\<close>

text \<open>The inputs at which the properties below are evaluated.\<close>

definition throwAlways :: "string \<Rightarrow> RunnerError option" where
  "throwAlways msg = Some (Unreachable msg)"

definition shellData :: BoltAction where
  "shellData = \<lparr> b_type = Shell, b_content = ''npm install'', b_filePath = None,
                  b_operation = None, b_status = None \<rparr>"

definition fileData :: BoltAction where
  "fileData = \<lparr> b_type = File, b_content = ''export {}'', b_filePath = Some ''src/a.ts'',
                 b_operation = None, b_status = None \<rparr>"

definition migrationData :: BoltAction where
  "migrationData = \<lparr> b_type = Supabase, b_content = ''create table t ();'', b_filePath = None,
                      b_operation = Some ''migration'', b_status = None \<rparr>"

definition envReturns :: ExecEnv where
  "envReturns = \<lparr> outcome = Returned, abortDuring = False, buildDir = ''/home/project/dist'', buildLog = [] \<rparr>"

definition envFails :: ExecEnv where
  "envFails = \<lparr> outcome = ThrewCommandError ''Failed To Execute Shell Command'' ''No Output Available'',
                 abortDuring = False, buildDir = ''/home/project/dist'', buildLog = [] \<rparr>"

text \<open>Two actions registered, then run in turn without streaming.\<close>

definition twoQueued :: ActionRunner where
  "twoQueued =
     snd (runAction throwAlways ''a2'' fileData False
       (snd (runAction throwAlways ''a1'' shellData False
         (addAction ''a2'' fileData (addAction ''a1'' shellData newRunner)))))"

text \<open>
  A migration without a file path: registered, marked running by the chain, aborted,
  then run without streaming and executed by the chain.
\<close>

definition abortedMigration :: ActionRunner where
  "abortedMigration =
     chainStep envReturns
       (snd (runAction throwAlways ''m1'' migrationData False
          (abort ''m1'' (chainStep envReturns (addAction ''m1'' migrationData newRunner)))))"

text \<open>
  A build: registered, run without streaming, and the two links of the chain executed
  with a build that succeeds. Only \<open>b1\<close> is ever passed to \<open>addAction\<close>.
\<close>

definition buildData :: BoltAction where
  "buildData = \<lparr> b_type = Build, b_content = ''npm run build'', b_filePath = None,
                  b_operation = None, b_status = None \<rparr>"

definition autotestData :: BoltAction where
  "autotestData = \<lparr> b_type = Test, b_content = ''Running automated tests after build...'',
                     b_filePath = None, b_operation = None, b_status = None \<rparr>"

definition afterBuild :: ActionRunner where
  "afterBuild =
     runChain [envReturns, envReturns]
       (snd (runAction throwAlways ''b1'' buildData False (addAction ''b1'' buildData newRunner)))"

text \<open>
  Two agents for the same kind of task: the first idle with one failed delegation behind
  it, the second busy with one completed delegation behind it.
\<close>

definition uiTask :: SubagentTask where
  "uiTask = \<lparr> task_id = ''t1'', task_type = ''ui'', description = ''build a form'', priority = None \<rparr>"

definition dbTask :: SubagentTask where
  "dbTask = \<lparr> task_id = ''t2'', task_type = ''db'', description = ''add a table'', priority = Some Critical \<rparr>"

definition idleAgent :: Subagent where
  "idleAgent = \<lparr> agent_name = ''idle'', canHandle = (\<lambda>t. task_type t = ''ui''),
                  execute = (\<lambda>t. Inr \<lparr> taskId = task_id t, sr_agentName = ''idle'', success = True,
                                        errors = None, sr_timestamp = 0 \<rparr>) \<rparr>"

definition busyAgent :: Subagent where
  "busyAgent = \<lparr> agent_name = ''busy'', canHandle = (\<lambda>t. task_type t = ''ui''),
                  execute = (\<lambda>t. Inl ''boom'') \<rparr>"

definition twoAgents :: SubagentManager where
  "twoAgents =
     \<lparr> agents = [(''idle'', idleAgent), (''busy'', busyAgent)],
       activeTasks = [(''t0'', \<lparr> task = uiTask, agent = ''busy'', d_status = D_running, d_result = None,
                                startTime = Some 0, endTime = None \<rparr>)],
       completedTasks =
         [\<lparr> task = uiTask, agent = ''idle'', d_status = D_failed, d_result = None,
             startTime = Some 0, endTime = Some 1 \<rparr>,
          \<lparr> task = uiTask, agent = ''busy'', d_status = D_completed, d_result = None,
             startTime = Some 0, endTime = Some 1 \<rparr>] \<rparr>"

text \<open>A report with two failures out of ten, and an empty one.\<close>

definition twoOfTen :: TestReport where
  "twoOfTen = \<lparr> agentName = ''BrowserTest'', timestamp = numberOfNat 0, duration = numberOfNat 5, results = [],
                 summary = \<lparr> total = 10, passed = 8, failed = 2, skipped = 0 \<rparr>,
                 suggestions = None, metadata = None \<rparr>"

definition emptyReport :: TestReport where
  "emptyReport = createReport ''BrowserTest'' (numberOfNat 0) generateSuggestions [] (numberOfNat 0) None"


text \<open>
  A report whose one failure quotes the closing tag in its error text; a report of the
  accessibility agent that took 12.5 milliseconds; and a report whose duration is \<open>NaN\<close>.
\<close>

definition tagInError :: TestReport where
  "tagInError =
     \<lparr> agentName = ''BrowserTest'', timestamp = Decimal False 7 0, duration = Decimal False 12 0,
       results = [\<lparr> testName = ''Page Load'', status = TestFailed, resultDuration = None,
                    error = Some ''Unexpected </boltTestResult>'', details = None, screenshot = None \<rparr>],
       summary = \<lparr> total = 1, passed = 0, failed = 1, skipped = 0 \<rparr>,
       suggestions = None, metadata = None \<rparr>"

definition headingWarning :: TestReport where
  "headingWarning =
     createReport ''A11yTest'' (Decimal False 7 0) generateSuggestions
       [\<lparr> testName = ''Heading Structure'', status = TestWarning, resultDuration = None,
          error = Some ''Multiple H1 headings found'',
          details = Some (JObject [(''h1Count'', JNumber (Decimal False 2 0)),
                                   (''wcagCriteria'', JString ''1.3.1'')]),
          screenshot = None \<rparr>]
       (Decimal False 125 (- 1)) (Some (JObject [(''testType'', JString ''accessibility'')]))"

definition nanDuration :: TestReport where
  "nanDuration = createReport ''BrowserTest'' (Decimal False 7 0) generateSuggestions [] NotANumber None"

section \<open>Properties of test reports\<close>

text \<open>
  C1 (as stated, refuted): the claim asks that for every report built by
  \<open>createReport\<close> the three counters add up to \<open>summary.total\<close>. A single result with
  status \<open>warning\<close> (the accessibility agent's "Multiple H1 headings found") gives
  \<open>total = 1\<close> and \<open>passed + failed + skipped = 0\<close>.
\<close>

theorem createReport_sum_counterexample:
  "passed (summary (createReport ''A11yTest'' (numberOfNat 0) generateSuggestions
       [\<lparr> testName = ''Heading Structure'', status = TestWarning, resultDuration = None,
          error = Some ''Multiple H1 headings found'', details = None, screenshot = None \<rparr>] (numberOfNat 5) None))
   + failed (summary (createReport ''A11yTest'' (numberOfNat 0) generateSuggestions
       [\<lparr> testName = ''Heading Structure'', status = TestWarning, resultDuration = None,
          error = Some ''Multiple H1 headings found'', details = None, screenshot = None \<rparr>] (numberOfNat 5) None))
   + skipped (summary (createReport ''A11yTest'' (numberOfNat 0) generateSuggestions
       [\<lparr> testName = ''Heading Structure'', status = TestWarning, resultDuration = None,
          error = Some ''Multiple H1 headings found'', details = None, screenshot = None \<rparr>] (numberOfNat 5) None))
   \<noteq> total (summary (createReport ''A11yTest'' (numberOfNat 0) generateSuggestions
       [\<lparr> testName = ''Heading Structure'', status = TestWarning, resultDuration = None,
          error = Some ''Multiple H1 headings found'', details = None, screenshot = None \<rparr>] (numberOfNat 5) None))"
  by (simp add: createReport_def)

lemma count_by_status:
  "length (filter (\<lambda>r. status r = TestPassed) rs)
   + length (filter (\<lambda>r. status r = TestFailed) rs)
   + length (filter (\<lambda>r. status r = TestSkipped) rs)
   + length (filter (\<lambda>r. status r = TestWarning) rs) = length rs"
proof (induction rs)
  case Nil
  show ?case by simp
next
  case (Cons r rs)
  then show ?case by (cases "status r") simp_all
qed

text \<open>
  C1 (amended): for every report built by \<open>createReport\<close>, \<open>summary.total\<close> is the
  number of results, \<open>summary.passed\<close>, \<open>summary.failed\<close> and \<open>summary.skipped\<close> are
  the exact counts of the results with that status, and the three counters together
  with the number of results whose status is \<open>warning\<close> add up to \<open>summary.total\<close>.
\<close>

theorem createReport_summary:
  "total (summary (createReport name now suggest rs dur meta)) = length (results (createReport name now suggest rs dur meta))
   \<and> results (createReport name now suggest rs dur meta) = rs
   \<and> passed (summary (createReport name now suggest rs dur meta)) = length (filter (\<lambda>r. status r = TestPassed) rs)
   \<and> failed (summary (createReport name now suggest rs dur meta)) = length (filter (\<lambda>r. status r = TestFailed) rs)
   \<and> skipped (summary (createReport name now suggest rs dur meta)) = length (filter (\<lambda>r. status r = TestSkipped) rs)
   \<and> passed (summary (createReport name now suggest rs dur meta))
       + failed (summary (createReport name now suggest rs dur meta))
       + skipped (summary (createReport name now suggest rs dur meta))
       + length (filter (\<lambda>r. status r = TestWarning) rs)
     = total (summary (createReport name now suggest rs dur meta))"
  using count_by_status [of rs] by (simp add: createReport_def)

section \<open>Properties of the severity classification\<close>

lemma js_div_positive: "0 < b \<Longrightarrow> js_div a b = Finite (of_nat a / of_nat b)"
  by (simp add: js_div_def)

lemma js_div_zero: "js_div a 0 = (if a = 0 then NaN else Infinity)"
  by (simp add: js_div_def)

text \<open>
  C9: the severity of a list of compilation errors is \<open>critical\<close> if one of them is typed
  \<open>build\<close> or \<open>syntax\<close>, else \<open>error\<close> if there are more than three, else \<open>warning\<close>. The
  severity of a test report is \<open>success\<close> when the quotient \<open>failed / total\<close> is zero,
  \<open>warning\<close> when it is below three tenths, and \<open>error\<close> otherwise; a report with
  \<open>total = 0\<close> has no such quotient (the runtime's \<open>NaN\<close> or \<open>Infinity\<close>) and falls under
  "otherwise".
\<close>

theorem calculateSeverity_classification:
  "ErrorFeedbackParser_calculateSeverity errs =
     (if \<exists>e\<in>set errs. ce_type e = E_build \<or> ce_type e = E_syntax then ES_critical
      else if length errs > 3 then ES_error
      else ES_warning)
   \<and> (0 < total (summary report) \<longrightarrow>
        TestFeedbackParser_calculateSeverity report =
          (if (of_nat (failed (summary report)) / of_nat (total (summary report)) :: rat) = 0 then TS_success
           else if (of_nat (failed (summary report)) / of_nat (total (summary report)) :: rat) < 3 / 10 then TS_warning
           else TS_error))
   \<and> (total (summary report) = 0 \<longrightarrow> TestFeedbackParser_calculateSeverity report = TS_error)"
proof (intro conjI impI)
  show "ErrorFeedbackParser_calculateSeverity errs =
     (if \<exists>e\<in>set errs. ce_type e = E_build \<or> ce_type e = E_syntax then ES_critical
      else if length errs > 3 then ES_error
      else ES_warning)"
    by (auto simp: ErrorFeedbackParser_calculateSeverity_def Let_def list_ex_iff)
next
  assume "0 < total (summary report)"
  then show "TestFeedbackParser_calculateSeverity report =
          (if (of_nat (failed (summary report)) / of_nat (total (summary report)) :: rat) = 0 then TS_success
           else if (of_nat (failed (summary report)) / of_nat (total (summary report)) :: rat) < 3 / 10 then TS_warning
           else TS_error)"
    by (simp add: TestFeedbackParser_calculateSeverity_def Let_def js_div_positive)
next
  assume "total (summary report) = 0"
  then show "TestFeedbackParser_calculateSeverity report = TS_error"
    by (simp add: TestFeedbackParser_calculateSeverity_def Let_def js_div_zero)
qed

theorem calculateSeverity_classification_witness:
  "0 < total (summary twoOfTen)
   \<and> TestFeedbackParser_calculateSeverity twoOfTen = TS_warning
   \<and> total (summary emptyReport) = 0
   \<and> TestFeedbackParser_calculateSeverity emptyReport = TS_error
   \<and> ErrorFeedbackParser_calculateSeverity [] = ES_warning"
  using calculateSeverity_classification [of "[]" twoOfTen]
    calculateSeverity_classification [of "[]" emptyReport]
  by (simp add: twoOfTen_def emptyReport_def createReport_def)

section \<open>Properties of the action runner\<close>

lemmas runner_eval = twoQueued_def abortedMigration_def runAction_def addAction_def newRunner_def
  shellData_def fileData_def migrationData_def throwAlways_def updateAction_def mergeAction_def
  envReturns_def envFails_def chainStep_def executeAction_def Let_def setStatus_def setFailed_def
  catchAction_def finishAction_def isAborted_def abort_def statusOf_def runsNormally_def
  handleSupabaseAction_def supabaseOperation_def thrownMessage_def objectPrototypeKeys_def
  updatePartial_def mergePartial_def partialOf_def executePartial_def finishPartial_def
  autotestEntry_def buildData_def autotestData_def afterBuild_def

text \<open>
  C4: for an id already in the actions map, \<open>addAction\<close> changes nothing: the runner is
  the same afterwards, so the map has the same keys and the stored entry (status,
  \<open>executed\<close>, content) is the one that was there.
\<close>

theorem addAction_twice_noop:
  "actions r actionId = Some a \<Longrightarrow>
     addAction actionId data r = r
     \<and> dom (actions (addAction actionId data r)) = dom (actions r)
     \<and> actions (addAction actionId data r) actionId = Some a"
  by (simp add: addAction_def)

theorem addAction_twice_noop_witness:
  "actions (addAction ''a1'' shellData newRunner) ''a1'' =
     Some \<lparr> atype = Shell, content = ''npm install'', filePath = None, operation = None,
            astatus = Pending, aerror = None, executed = False, aborted = False \<rparr>
   \<and> addAction ''a1'' fileData (addAction ''a1'' shellData newRunner) = addAction ''a1'' shellData newRunner"
  using addAction_twice_noop [of "addAction ''a1'' shellData newRunner" "''a1''"
      "\<lparr> atype = Shell, content = ''npm install'', filePath = None, operation = None,
            astatus = Pending, aerror = None, executed = False, aborted = False \<rparr>" fileData]
  by (simp add: addAction_def newRunner_def shellData_def objectPrototypeKeys_def)

text \<open>
  C6: for a registered action whose type is not \<open>file\<close>, \<open>runAction\<close> with
  \<open>isStreaming = true\<close> returns without throwing and leaves the runner as it was: no
  status changes, nothing is appended to the chain, and \<open>executed\<close> keeps its value.
\<close>

theorem runAction_streaming_skips:
  "actions r actionId = Some a \<Longrightarrow> atype a \<noteq> File \<Longrightarrow>
     runAction unreachable actionId data True r = (None, r)"
  by (simp add: runAction_def)

theorem runAction_streaming_skips_witness:
  "actions (addAction ''a1'' shellData newRunner) ''a1'' =
     Some \<lparr> atype = Shell, content = ''npm install'', filePath = None, operation = None,
            astatus = Pending, aerror = None, executed = False, aborted = False \<rparr>
   \<and> runAction throwAlways ''a1'' shellData True (addAction ''a1'' shellData newRunner)
       = (None, addAction ''a1'' shellData newRunner)"
  using runAction_streaming_skips [of "addAction ''a1'' shellData newRunner" "''a1''"
      "\<lparr> atype = Shell, content = ''npm install'', filePath = None, operation = None,
            astatus = Pending, aerror = None, executed = False, aborted = False \<rparr>" throwAlways shellData]
  by (simp add: addAction_def newRunner_def shellData_def objectPrototypeKeys_def)

text \<open>
  C10 (as stated, refuted): an id that was never passed to \<open>addAction\<close> can still be
  found by \<open>runAction\<close>. In \<open>afterBuild\<close> only \<open>b1\<close> was registered with \<open>addAction\<close>;
  the build succeeded and \<open>#runAutomatedTests\<close> stored the entry of the automated test
  under \<open>b1-autotest\<close>. \<open>runAction\<close> with that id does not throw, and it appends the
  execution to the chain. On a new runner, where nothing was registered, the id
  \<open>constructor\<close> names a property that the store's object inherits: \<open>runAction\<close> does
  not throw either, stores a partial entry under the id and appends the execution.
\<close>

theorem runAction_unregistered_counterexample:
  "dom (actions (addAction ''b1'' buildData newRunner)) = {''b1''}
   \<and> chain afterBuild = []
   \<and> fst (runAction throwAlways ''b1-autotest'' autotestData False afterBuild) = None
   \<and> chain (snd (runAction throwAlways ''b1-autotest'' autotestData False afterBuild))
       = [Execute ''b1-autotest'' False]
   \<and> map_option executed (actions (snd (runAction throwAlways ''b1-autotest'' autotestData False afterBuild))
        ''b1-autotest'') = Some True
   \<and> dom (actions newRunner) = {}
   \<and> fst (runAction throwAlways ''constructor'' shellData False newRunner) = None
   \<and> chain (snd (runAction throwAlways ''constructor'' shellData False newRunner))
       = [Execute ''constructor'' False]
   \<and> dom (partials (snd (runAction throwAlways ''constructor'' shellData False newRunner)))
       = {''constructor''}"
  by (simp add: runner_eval)

text \<open>
  C10 (amended): for an id whose lookup in the store gives \<open>undefined\<close> (the store has
  no entry under it, neither one stored by \<open>addAction\<close> or by the automated test after a
  build nor a partial one, and the id is not the name of an inherited property),
  \<open>runAction\<close> throws, whatever the helper \<open>unreachable\<close> does, and the runner (the
  store and the chain) is as it was.
\<close>

theorem runAction_unregistered_throws:
  "actions r actionId = None \<Longrightarrow> partials r actionId = None \<Longrightarrow>
   actionId \<notin> set objectPrototypeKeys \<Longrightarrow>
     \<exists>e. runAction unreachable actionId data isStreaming r = (Some e, r)"
  by (simp add: runAction_def split: option.splits)

theorem runAction_unregistered_throws_witness:
  "actions newRunner ''ghost'' = None \<and> partials newRunner ''ghost'' = None
   \<and> ''ghost'' \<notin> set objectPrototypeKeys
   \<and> runAction throwAlways ''ghost'' shellData False newRunner
       = (Some (Unreachable ''Action ghost not found''), newRunner)
   \<and> runAction (\<lambda>msg. None) ''ghost'' shellData False newRunner = (Some TypeError, newRunner)"
  using runAction_unregistered_throws [of newRunner "''ghost''" throwAlways shellData False]
  by (simp add: runAction_def newRunner_def throwAlways_def objectPrototypeKeys_def)

text \<open>
  Conversely \<open>runAction\<close> throws only then: with an entry, a partial entry or an
  inherited property under the id it returns.
\<close>

lemma runAction_throws_iff:
  "(fst (runAction unreachable actionId data isStreaming r) \<noteq> None)
     = (actions r actionId = None \<and> partials r actionId = None \<and> actionId \<notin> set objectPrototypeKeys)"
  by (simp add: runAction_def Let_def split: option.splits)

subsection \<open>The chain\<close>

lemma chain_updateAction: "chain (updateAction i f r) = chain r"
  by (simp add: updateAction_def split: option.splits)

lemma actions_updateAction:
  "actions (updateAction i f r) = (case actions r i of None \<Rightarrow> actions r | Some a \<Rightarrow> (actions r)(i \<mapsto> f a))"
  by (simp add: updateAction_def split: option.splits)

lemma chain_abort: "chain (abort i r) = chain r"
  by (simp add: abort_def chain_updateAction)

lemma chain_finishAction: "chain (fst (finishAction i s r)) = chain r"
  by (simp add: finishAction_def chain_updateAction)

lemma chain_updatePartial: "chain (updatePartial i f r) = chain r"
  by (simp add: updatePartial_def split: option.splits)

lemma chain_finishPartial: "chain (fst (finishPartial i s r)) = chain r"
  by (simp add: finishPartial_def chain_updatePartial)

lemma chain_executePartial: "chain (fst (executePartial env i s p r)) = chain r"
  by (simp add: executePartial_def Let_def chain_updatePartial chain_finishPartial
      split: ActionType.splits sum.splits OpOutcome.splits)

lemma chain_catchAction: "chain (fst (catchAction i t r)) = chain r"
  by (simp add: catchAction_def chain_updateAction Let_def split: OpOutcome.splits)

lemma chain_executeAction: "chain (fst (executeAction env i s r)) = chain r"
  by (simp add: executeAction_def Let_def chain_updateAction chain_abort chain_finishAction
      chain_catchAction chain_executePartial
      split: option.splits ActionType.splits sum.splits OpOutcome.splits)




lemma isAborted_updateAction_status:
  "isAborted i (updateAction i (setStatus st) r) = isAborted i r"
  by (simp add: isAborted_def updateAction_def setStatus_def split: option.splits)




subsection \<open>Stored entries\<close>

lemma dom_updateAction: "dom (actions (updateAction i f r)) = dom (actions r)"
  by (auto simp: updateAction_def split: option.splits)

lemma partials_updateAction: "partials (updateAction i f r) = partials r"
  by (simp add: updateAction_def split: option.splits)

lemma dom_updatePartial: "dom (partials (updatePartial i f r)) = dom (partials r)"
  by (auto simp: updatePartial_def split: option.splits)

lemma actions_updatePartial: "actions (updatePartial i f r) = actions r"
  by (simp add: updatePartial_def split: option.splits)

lemma dom_abort: "dom (actions (abort i r)) = dom (actions r)"
  by (simp add: abort_def dom_updateAction)

lemma partials_abort: "partials (abort i r) = partials r"
  by (simp add: abort_def partials_updateAction)

lemma dom_finishAction: "dom (actions (fst (finishAction i s r))) = dom (actions r)"
  by (simp add: finishAction_def dom_updateAction)

lemma partials_finishAction: "partials (fst (finishAction i s r)) = partials r"
  by (simp add: finishAction_def partials_updateAction)

lemma dom_catchAction: "dom (actions (fst (catchAction i t r))) = dom (actions r)"
  by (simp add: catchAction_def dom_updateAction Let_def split: OpOutcome.splits)

lemma partials_catchAction: "partials (fst (catchAction i t r)) = partials r"
  by (simp add: catchAction_def partials_updateAction Let_def split: OpOutcome.splits)

lemma dom_finishPartial: "dom (partials (fst (finishPartial i s r))) = dom (partials r)"
  by (simp add: finishPartial_def dom_updatePartial)

lemma actions_finishPartial: "actions (fst (finishPartial i s r)) = actions r"
  by (simp add: finishPartial_def actions_updatePartial)

lemma stored_executePartial:
  "dom (actions r) \<union> dom (partials r)
     \<subseteq> dom (actions (fst (executePartial env i s p r))) \<union> dom (partials (fst (executePartial env i s p r)))"
  by (auto simp: executePartial_def Let_def dom_updatePartial actions_updatePartial
      dom_finishPartial actions_finishPartial
      split: ActionType.splits sum.splits OpOutcome.splits)

lemma stored_executeAction:
  "dom (actions r) \<union> dom (partials r)
     \<subseteq> dom (actions (fst (executeAction env i s r))) \<union> dom (partials (fst (executeAction env i s r)))"
proof (cases "actions r i")
  case None
  then show ?thesis
    using stored_executePartial [of r env i s]
    by (auto simp: executeAction_def split: option.splits)
next
  case (Some a)
  then show ?thesis
    by (auto simp: executeAction_def Let_def dom_updateAction dom_abort dom_finishAction
        dom_catchAction partials_updateAction partials_abort partials_finishAction
        partials_catchAction split: ActionType.splits sum.splits OpOutcome.splits)
qed

lemma chain_registered_newRunner: "chain_registered newRunner"
  by (simp add: chain_registered_def newRunner_def)

lemma chain_registered_addAction: "chain_registered r \<Longrightarrow> chain_registered (addAction i d r)"
  by (auto simp: chain_registered_def addAction_def split: option.splits)

lemma chain_registered_runAction:
  "chain_registered r \<Longrightarrow> chain_registered (snd (runAction u i d s r))"
  by (auto simp: chain_registered_def runAction_def Let_def updateAction_def split: option.splits)

lemma chain_registered_abort: "chain_registered r \<Longrightarrow> chain_registered (abort i r)"
  by (simp add: chain_registered_def chain_abort dom_abort partials_abort)

lemma chain_registered_chainStep:
  assumes "chain_registered r"
  shows "chain_registered (chainStep env r)"
proof (cases "chain r")
  case Nil
  with assms show ?thesis by (simp add: chainStep_def)
next
  case (Cons it rest)
  have rest: "\<forall>x\<in>set rest. itemId x \<in> dom (actions r) \<union> dom (partials r)"
    using assms Cons by (simp add: chain_registered_def)
  show ?thesis
  proof (cases it)
    case (MarkRunning i)
    with Cons rest show ?thesis
      by (simp add: chain_registered_def chainStep_def chain_updateAction dom_updateAction
          partials_updateAction)
  next
    case (Execute i s)
    let ?r' = "fst (executeAction env i s (r\<lparr>chain := rest\<rparr>))"
    have st: "chainStep env r = ?r'"
      using Cons Execute
      by (cases "executeAction env i s (r\<lparr>chain := rest\<rparr>)") (auto simp: chainStep_def split: option.splits)
    have "chain ?r' = rest" by (simp add: chain_executeAction)
    moreover have "dom (actions r) \<union> dom (partials r) \<subseteq> dom (actions ?r') \<union> dom (partials ?r')"
      using stored_executeAction [of "r\<lparr>chain := rest\<rparr>" env i s] by simp
    ultimately show ?thesis using rest st unfolding chain_registered_def by (metis subsetD)
  qed
qed

text \<open>An id has an entry or a partial entry, never both.\<close>

lemma one_shape_newRunner: "one_shape newRunner"
  by (simp add: one_shape_def newRunner_def)

lemma one_shape_addAction: "one_shape r \<Longrightarrow> one_shape (addAction i d r)"
  by (auto simp: one_shape_def addAction_def split: option.splits)

lemma one_shape_runAction: "one_shape r \<Longrightarrow> one_shape (snd (runAction u i d s r))"
  by (auto simp: one_shape_def runAction_def Let_def updateAction_def split: option.splits if_splits)

lemma one_shape_updateAction: "one_shape r \<Longrightarrow> one_shape (updateAction i f r)"
  by (simp add: one_shape_def dom_updateAction partials_updateAction)

lemma one_shape_updatePartial: "one_shape r \<Longrightarrow> one_shape (updatePartial i f r)"
  by (simp add: one_shape_def dom_updatePartial actions_updatePartial)

lemma one_shape_abort: "one_shape r \<Longrightarrow> one_shape (abort i r)"
  by (simp add: abort_def one_shape_updateAction)

lemma one_shape_autotest:
  "one_shape r \<Longrightarrow>
     one_shape (r\<lparr> buildOutput := b, actions := (actions r)(k \<mapsto> e), partials := (partials r)(k := None) \<rparr>)"
  by (auto simp: one_shape_def)

lemma one_shape_finishAction: "one_shape r \<Longrightarrow> one_shape (fst (finishAction i s r))"
  by (simp add: finishAction_def one_shape_updateAction)

lemma one_shape_catchAction: "one_shape r \<Longrightarrow> one_shape (fst (catchAction i t r))"
  by (simp add: catchAction_def one_shape_updateAction Let_def split: OpOutcome.splits)

lemma one_shape_finishPartial: "one_shape r \<Longrightarrow> one_shape (fst (finishPartial i s r))"
  by (simp add: finishPartial_def one_shape_updatePartial)

lemma one_shape_executePartial: "one_shape r \<Longrightarrow> one_shape (fst (executePartial env i s p r))"
  by (simp add: executePartial_def Let_def one_shape_updatePartial one_shape_finishPartial
      one_shape_autotest split: ActionType.splits sum.splits OpOutcome.splits)

lemma one_shape_executeAction: "one_shape r \<Longrightarrow> one_shape (fst (executeAction env i s r))"
  by (simp add: executeAction_def Let_def one_shape_updateAction one_shape_abort
      one_shape_finishAction one_shape_catchAction one_shape_executePartial one_shape_autotest
      split: option.splits ActionType.splits sum.splits OpOutcome.splits)

lemma one_shape_chain: "one_shape (r\<lparr>chain := c\<rparr>) = one_shape r"
  by (simp add: one_shape_def)

lemma one_shape_chainStep: "one_shape r \<Longrightarrow> one_shape (chainStep env r)"
proof (cases "chain r")
  case Nil
  assume "one_shape r"
  with Nil show ?thesis by (simp add: chainStep_def)
next
  case (Cons it rest)
  assume r: "one_shape r"
  show ?thesis
  proof (cases it)
    case (MarkRunning i)
    with Cons r show ?thesis by (simp add: chainStep_def one_shape_updateAction one_shape_chain)
  next
    case (Execute i s)
    have "chainStep env r = fst (executeAction env i s (r\<lparr>chain := rest\<rparr>))"
      using Cons Execute
      by (cases "executeAction env i s (r\<lparr>chain := rest\<rparr>)") (auto simp: chainStep_def split: option.splits)
    then show ?thesis using r by (simp add: one_shape_executeAction one_shape_chain)
  qed
qed

subsection \<open>Abort\<close>

text \<open>
  Outside the \<open>supabase\<close> branch an execution never ends in \<open>failed\<close> once the signal
  is aborted: both \<open>catch\<close> blocks read \<open>abortSignal.aborted\<close> first.
\<close>

lemma executeAction_aborted_not_failed:
  assumes "actions r i = Some a" and "atype a \<noteq> Supabase" and "aborted a \<or> abortDuring env"
  shows "statusOf i (fst (executeAction env i s r)) \<noteq> Some Failed"
  using assms
  by (auto simp: executeAction_def Let_def finishAction_def catchAction_def statusOf_def
      updateAction_def setStatus_def setFailed_def isAborted_def abort_def
      split: ActionType.splits OpOutcome.splits)

text \<open>
  C5 (the code departs from the claim): a \<open>supabase\<close> action that was aborted and whose
  operation then throws ends with status \<open>failed\<close>; the inner \<open>catch\<close> of the
  \<open>supabase\<close> branch does not read the signal.
\<close>

theorem aborted_supabase_reported_failed:
  "isAborted ''m1'' abortedMigration
   \<and> statusOf ''m1'' abortedMigration = Some Failed
   \<and> map_option aerror (actions abortedMigration ''m1'') = Some (Some ''Migration requires a filePath'')"
  by (simp add: runner_eval)

section \<open>Properties of the subagent manager\<close>

text \<open>The head of a stable sort is the first element of the input with the least key.\<close>

lemma hd_sort_key_first_least:
  fixes f :: "'a \<Rightarrow> 'b::linorder"
  assumes "xs \<noteq> []"
  shows "\<exists>pre post. xs = pre @ hd (sort_key f xs) # post
           \<and> (\<forall>y\<in>set pre. f (hd (sort_key f xs)) < f y)
           \<and> (\<forall>y\<in>set post. f (hd (sort_key f xs)) \<le> f y)"
proof -
  let ?ys = "sort_key f xs"
  from assms have ne: "?ys \<noteq> []"
    by (metis length_0_conv length_sort)
  then obtain h ys' where ys: "?ys = h # ys'" by (cases ?ys) auto
  have least: "f h \<le> f y" if "y \<in> set xs" for y
  proof -
    have "sorted (map f ?ys)" by (rule sorted_sort_key)
    moreover have "y \<in> set ?ys" using that by simp
    ultimately show ?thesis using ys by auto
  qed
  have "filter (\<lambda>y. f y = f h) ?ys = filter (\<lambda>y. f y = f h) xs"
    by (rule sort_key_stable)
  then have "filter (\<lambda>y. f y = f h) xs = h # filter (\<lambda>y. f y = f h) ys'"
    using ys by simp
  then obtain pre post where xs: "xs = pre @ h # post" and pre: "\<forall>u\<in>set pre. f u \<noteq> f h"
    by (auto simp: filter_eq_Cons_iff)
  have "\<forall>y\<in>set pre. f h < f y"
  proof
    fix y assume y: "y \<in> set pre"
    then have "f h \<le> f y" using least xs by simp
    moreover have "f y \<noteq> f h" using pre y by blast
    ultimately show "f h < f y" by simp
  qed
  moreover have "\<forall>y\<in>set post. f h \<le> f y" using least xs by simp
  ultimately show ?thesis using xs ys by auto
qed

lemma filter_eq_appendD:
  "filter P xs = us @ vs \<Longrightarrow> \<exists>as bs. xs = as @ bs \<and> filter P as = us \<and> filter P bs = vs"
proof (induction xs arbitrary: us)
  case Nil
  then show ?case by simp
next
  case (Cons x xs)
  show ?case
  proof (cases "P x")
    case False
    with Cons.prems have "filter P xs = us @ vs" by simp
    from Cons.IH [OF this] obtain as bs where "xs = as @ bs" "filter P as = us" "filter P bs = vs"
      by blast
    with False have "x # xs = (x # as) @ bs \<and> filter P (x # as) = us \<and> filter P bs = vs" by simp
    then show ?thesis by blast
  next
    case True
    show ?thesis
    proof (cases us)
      case Nil
      with Cons.prems have "x # xs = [] @ (x # xs) \<and> filter P [] = us \<and> filter P (x # xs) = vs" by simp
      then show ?thesis by blast
    next
      case (Cons u us')
      with True Cons.prems have "x = u" and "filter P xs = us' @ vs" by simp_all
      from Cons.IH [OF this(2)] obtain as bs where "xs = as @ bs" "filter P as = us'" "filter P bs = vs"
        by blast
      with True Cons \<open>x = u\<close> have "x # xs = (x # as) @ bs \<and> filter P (x # as) = us \<and> filter P bs = vs"
        by simp
      then show ?thesis by blast
    qed
  qed
qed

lemma findSuitableAgent_None:
  "findSuitableAgent m t = None \<longleftrightarrow> (\<forall>a\<in>set (map snd (agents m)). \<not> canHandle a t)"
  by (auto simp: findSuitableAgent_def Let_def filter_empty_conv)

lemma findSuitableAgent_Some:
  assumes "findSuitableAgent m t = Some a"
  shows "\<exists>pre post. map snd (agents m) = pre @ a # post \<and> canHandle a t
           \<and> (\<forall>b\<in>set pre. canHandle b t \<longrightarrow> calculateAgentScore m b t < calculateAgentScore m a t)
           \<and> (\<forall>b\<in>set post. canHandle b t \<longrightarrow> calculateAgentScore m b t \<le> calculateAgentScore m a t)"
proof -
  let ?g = "\<lambda>a. (a, calculateAgentScore m a t)"
  let ?P = "\<lambda>a. canHandle a t"
  let ?C = "filter ?P (map snd (agents m))"
  let ?S = "map ?g ?C"
  let ?f = "\<lambda>p::Subagent \<times> rat. - snd p"
  from assms have ne: "?S \<noteq> []" and a: "a = fst (hd (sort_key ?f ?S))"
    by (auto simp: findSuitableAgent_def Let_def split: if_splits)
  from hd_sort_key_first_least [OF ne, of ?f]
  obtain pre' post' where S: "?S = pre' @ hd (sort_key ?f ?S) # post'"
    and lt: "\<forall>y\<in>set pre'. ?f (hd (sort_key ?f ?S)) < ?f y"
    and le: "\<forall>y\<in>set post'. ?f (hd (sort_key ?f ?S)) \<le> ?f y"
    by blast
  from S obtain preC a' postC where C: "?C = preC @ a' # postC"
    and pre': "pre' = map ?g preC" and h: "hd (sort_key ?f ?S) = ?g a'" and post': "post' = map ?g postC"
    by (auto simp: map_eq_append_conv map_eq_Cons_conv)
  from a h have aa: "a' = a" by simp
  from C obtain as bs where xs: "map snd (agents m) = as @ bs" and as: "filter ?P as = preC"
    and bs: "filter ?P bs = a' # postC"
    using filter_eq_appendD [of ?P "map snd (agents m)" preC "a' # postC"] by auto
  from bs obtain ws zs where bs2: "bs = ws @ a' # zs" and ws: "\<forall>w\<in>set ws. \<not> ?P w"
    and Pa: "?P a'" and zs: "postC = filter ?P zs"
    by (auto simp: filter_eq_Cons_iff)
  have 1: "map snd (agents m) = (as @ ws) @ a # zs" using xs bs2 aa by simp
  have 2: "\<forall>b\<in>set (as @ ws). canHandle b t \<longrightarrow> calculateAgentScore m b t < calculateAgentScore m a t"
  proof (intro ballI impI)
    fix b assume b: "b \<in> set (as @ ws)" and cb: "canHandle b t"
    with ws have "b \<in> set preC" using as by auto
    then have "?g b \<in> set pre'" using pre' by simp
    with lt h aa show "calculateAgentScore m b t < calculateAgentScore m a t" by auto
  qed
  have 3: "\<forall>b\<in>set zs. canHandle b t \<longrightarrow> calculateAgentScore m b t \<le> calculateAgentScore m a t"
  proof (intro ballI impI)
    fix b assume b: "b \<in> set zs" and cb: "canHandle b t"
    then have "b \<in> set postC" using zs by simp
    then have "?g b \<in> set post'" using post' by simp
    with le h aa show "calculateAgentScore m b t \<le> calculateAgentScore m a t" by auto
  qed
  from 1 2 3 Pa aa show ?thesis by blast
qed

lemma calculateAgentScore_spec: "calculateAgentScore m a t = spec_score m a t"
  by (simp add: calculateAgentScore_def spec_score_def spec_successRate_def spec_priorityBoost_def Let_def)

lemma delegateTask_None:
  "findSuitableAgent m t = None \<Longrightarrow>
     delegateTask now t m =
       (\<lparr> taskId = task_id t, sr_agentName = ''SubagentManager'', success = False,
          errors = Some [''No suitable agent found for this task type''], sr_timestamp = now \<rparr>, m)"
  by (simp add: delegateTask_def)

lemma delegateTask_Some:
  "findSuitableAgent m t = Some a \<Longrightarrow>
     completedTasks (snd (delegateTask now t m)) \<noteq> [] \<and>
     agent (last (completedTasks (snd (delegateTask now t m)))) = agent_name a \<and>
     task (last (completedTasks (snd (delegateTask now t m)))) = t"
  by (simp add: delegateTask_def Let_def split: sum.splits)

text \<open>
  C3: \<open>delegateTask\<close> finds no agent exactly when no registered agent can handle the
  task, and then returns the unsuccessful result with the "no suitable agent" error and
  leaves the manager as it was. Otherwise the agent it delegates to is a registered one
  that can handle the task, every capable agent before it in iteration order has a
  strictly lower score and every capable agent after it has a score that is not higher;
  the score is the formula of the specification.
\<close>

theorem delegateTask_selects_best_capable:
  "(findSuitableAgent m t = None \<longleftrightarrow> (\<forall>a\<in>set (map snd (agents m)). \<not> canHandle a t))
   \<and> (findSuitableAgent m t = None \<longrightarrow>
        delegateTask now t m =
          (\<lparr> taskId = task_id t, sr_agentName = ''SubagentManager'', success = False,
             errors = Some [''No suitable agent found for this task type''], sr_timestamp = now \<rparr>, m))
   \<and> (\<forall>a. findSuitableAgent m t = Some a \<longrightarrow>
          (\<exists>pre post. map snd (agents m) = pre @ a # post \<and> canHandle a t
             \<and> (\<forall>b\<in>set pre. canHandle b t \<longrightarrow> spec_score m b t < spec_score m a t)
             \<and> (\<forall>b\<in>set post. canHandle b t \<longrightarrow> spec_score m b t \<le> spec_score m a t))
          \<and> completedTasks (snd (delegateTask now t m)) \<noteq> []
          \<and> agent (last (completedTasks (snd (delegateTask now t m)))) = agent_name a
          \<and> task (last (completedTasks (snd (delegateTask now t m)))) = t)
   \<and> (\<forall>b. calculateAgentScore m b t = spec_score m b t)"
proof (intro conjI allI impI)
  show "findSuitableAgent m t = None \<longleftrightarrow> (\<forall>a\<in>set (map snd (agents m)). \<not> canHandle a t)"
    by (rule findSuitableAgent_None)
next
  assume "findSuitableAgent m t = None"
  then show "delegateTask now t m =
          (\<lparr> taskId = task_id t, sr_agentName = ''SubagentManager'', success = False,
             errors = Some [''No suitable agent found for this task type''], sr_timestamp = now \<rparr>, m)"
    by (rule delegateTask_None)
next
  fix a assume "findSuitableAgent m t = Some a"
  from findSuitableAgent_Some [OF this]
  show "\<exists>pre post. map snd (agents m) = pre @ a # post \<and> canHandle a t
             \<and> (\<forall>b\<in>set pre. canHandle b t \<longrightarrow> spec_score m b t < spec_score m a t)
             \<and> (\<forall>b\<in>set post. canHandle b t \<longrightarrow> spec_score m b t \<le> spec_score m a t)"
    by (simp add: calculateAgentScore_spec)
next
  fix a assume "findSuitableAgent m t = Some a"
  from delegateTask_Some [OF this, of now]
  show "completedTasks (snd (delegateTask now t m)) \<noteq> []" by simp
next
  fix a assume "findSuitableAgent m t = Some a"
  from delegateTask_Some [OF this, of now]
  show "agent (last (completedTasks (snd (delegateTask now t m)))) = agent_name a" by simp
next
  fix a assume "findSuitableAgent m t = Some a"
  from delegateTask_Some [OF this, of now]
  show "task (last (completedTasks (snd (delegateTask now t m)))) = t" by simp
next
  fix b show "calculateAgentScore m b t = spec_score m b t"
    by (rule calculateAgentScore_spec)
qed

lemmas manager_eval = twoAgents_def idleAgent_def busyAgent_def uiTask_def dbTask_def
  findSuitableAgent_def calculateAgentScore_def isBusy_def agentTasks_def Let_def
  delegateTask_def mapDelete_def spec_score_def spec_successRate_def spec_priorityBoost_def

theorem delegateTask_selects_best_capable_witness:
  "findSuitableAgent twoAgents uiTask = Some idleAgent
   \<and> canHandle idleAgent uiTask \<and> canHandle busyAgent uiTask
   \<and> spec_score twoAgents idleAgent uiTask = 100
   \<and> spec_score twoAgents busyAgent uiTask = 100
   \<and> agent (last (completedTasks (snd (delegateTask 7 uiTask twoAgents)))) = ''idle''
   \<and> findSuitableAgent twoAgents dbTask = None
   \<and> delegateTask 7 dbTask twoAgents =
        (\<lparr> taskId = ''t2'', sr_agentName = ''SubagentManager'', success = False,
           errors = Some [''No suitable agent found for this task type''], sr_timestamp = 7 \<rparr>, twoAgents)"
  using delegateTask_selects_best_capable [of twoAgents uiTask 7]
    delegateTask_selects_best_capable [of twoAgents dbTask 7]
  by (simp add: manager_eval)

section \<open>Properties of the error monitor\<close>

subsection \<open>The matcher finds a type checker line and reports what it matched\<close>























text \<open>
  The bare text \<open>TS2304:\<close>, without the location and the word \<open>error\<close> in front, is
  not what the monitor looks for.
\<close>

lemma monitorOutput_bare_code: "fst (monitorOutput 0 ''TS2304: Cannot find name foo.'' []) = []"
  by code_simp

section \<open>Properties of the wire format\<close>

subsection \<open>Numbers are read back\<close>

lemma below_ten: "(k::nat) < 10 \<Longrightarrow> k \<in> {0, 1, 2, 3, 4, 5, 6, 7, 8, 9}"
  by auto

lemma isDigit_char_of: "(k::nat) < 10 \<Longrightarrow> isDigit (char_of (48 + k))"
  by (drule below_ten) (auto simp: isDigit_def char_of_eq_iff)

lemma digitValue_char_of: "(k::nat) < 10 \<Longrightarrow> digitValue (char_of (48 + k)) = k"
  by (simp add: digitValue_def)

lemma parseInt_snoc: "parseInt (ds @ [d]) = 10 * parseInt ds + digitValue d"
  by (simp add: parseInt_def)

lemma parseInt_digitsOf: "parseInt (digitsOf n) = n"
proof (induction n rule: digitsOf.induct)
  case (1 n)
  show ?case
  proof (cases "n < 10")
    case True
    then show ?thesis
      by (subst digitsOf.simps) (simp add: parseInt_def digitValue_char_of)
  next
    case False
    with 1 have "parseInt (digitsOf (n div 10)) = n div 10" by simp
    with False show ?thesis
      by (subst digitsOf.simps) (simp add: parseInt_snoc digitValue_char_of)
  qed
qed

lemma digitsOf_digits: "list_all isDigit (digitsOf n)"
proof (induction n rule: digitsOf.induct)
  case (1 n)
  show ?case
  proof (cases "n < 10")
    case True
    then show ?thesis by (subst digitsOf.simps) (simp add: isDigit_char_of)
  next
    case False
    with 1 have "list_all isDigit (digitsOf (n div 10))" by simp
    with False show ?thesis by (subst digitsOf.simps) (simp add: isDigit_char_of)
  qed
qed

lemma digitsOf_nonempty: "digitsOf n \<noteq> []"
  by (subst digitsOf.simps) simp

lemma hd_digitsOf_zero: "hd (digitsOf n) = CHR ''0'' \<Longrightarrow> n = 0"
proof (induction n rule: digitsOf.induct)
  case (1 n)
  show ?case
  proof (cases "n < 10")
    case True
    with "1.prems" have "char_of (48 + n) = CHR ''0''"
      by (subst (asm) digitsOf.simps) simp
    then have "of_char (char_of (48 + n) :: char) = (of_char CHR ''0'' :: nat)" by simp
    with True show ?thesis by simp
  next
    case False
    have "hd (digitsOf n) = hd (digitsOf (n div 10))"
      using False digitsOf_nonempty [of "n div 10"] by (subst digitsOf.simps) simp
    with 1 False have "n div 10 = 0" by simp
    with False show ?thesis by simp
  qed
qed

lemma length_digitsOf_zero: "length (digitsOf 0) = 1"
  by (subst digitsOf.simps) simp

lemma hd_digitsOf_digit: "isDigit (hd (digitsOf n))"
  using digitsOf_digits [of n] digitsOf_nonempty [of n] by (cases "digitsOf n") simp_all

lemma digits_then:
  assumes "list_all isDigit ds" and "rest = [] \<or> \<not> isDigit (hd rest)"
  shows "takeWhile isDigit (ds @ rest) = ds" and "dropWhile isDigit (ds @ rest) = rest"
proof -
  have a: "\<forall>x\<in>set ds. isDigit x" using assms(1) by (simp add: list_all_iff)
  show "takeWhile isDigit (ds @ rest) = ds"
    using a assms(2) by (cases rest) (simp_all add: takeWhile_tail)
  show "dropWhile isDigit (ds @ rest) = rest"
    using a assms(2) by (cases rest) (simp_all add: dropWhile_append)
qed

lemma numberEnd_digits: "numberEnd rest \<Longrightarrow> rest = [] \<or> \<not> isDigit (hd rest)"
  by (auto simp: numberEnd_def)

lemma parseInt_append: "parseInt (a @ b) = parseInt a * 10 ^ length b + parseInt b"
proof (induction b rule: rev_induct)
  case Nil
  show ?case by (simp add: parseInt_def)
next
  case (snoc x xs)
  have "parseInt (a @ xs @ [x]) = 10 * parseInt (a @ xs) + digitValue x"
    using parseInt_snoc [of "a @ xs" x] by simp
  also have "\<dots> = 10 * (parseInt a * 10 ^ length xs + parseInt xs) + digitValue x"
    by (simp add: snoc)
  also have "\<dots> = parseInt a * 10 ^ length (xs @ [x]) + parseInt (xs @ [x])"
    by (simp add: parseInt_snoc algebra_simps)
  finally show ?case by simp
qed

lemma parseInt_zeros: "parseInt (replicate j CHR ''0'') = 0"
proof (induction j)
  case 0
  show ?case by (simp add: parseInt_def)
next
  case (Suc j)
  have "parseInt (replicate (Suc j) CHR ''0'') = parseInt (replicate j CHR ''0'' @ ''0'')"
    by (simp add: replicate_append_same)
  then show ?case by (simp add: parseInt_snoc Suc digitValue_def)
qed

lemma stripZeros_done: "s mod 10 \<noteq> 0 \<Longrightarrow> stripZeros s e = (s, e)"
  by (subst stripZeros.simps) simp

lemma stripZeros_zero: "stripZeros 0 e = (0, e)"
  by (subst stripZeros.simps) simp

lemma stripZeros_power: "s mod 10 \<noteq> 0 \<Longrightarrow> stripZeros (s * 10 ^ j) e = (s, e + int j)"
proof (induction j arbitrary: e)
  case 0
  then show ?case by (simp add: stripZeros_done)
next
  case (Suc j)
  from Suc.prems have "s \<noteq> 0" by auto
  then have "stripZeros (s * 10 ^ Suc j) e = stripZeros (s * 10 ^ j) (e + 1)"
    by (subst stripZeros.simps) simp
  with Suc show ?case by simp
qed

lemma decimal_power:
  "s mod 10 \<noteq> 0 \<Longrightarrow> decimal negative (s * 10 ^ j) e = Decimal negative s (e + int j)"
  by (auto simp: decimal_def stripZeros_power)

lemma decimal_done: "s mod 10 \<noteq> 0 \<Longrightarrow> decimal negative s e = Decimal negative s e"
  using decimal_power [of s negative 0 e] by simp

lemma decimal_zero: "decimal negative 0 e = Decimal negative 0 0"
  by (simp add: decimal_def stripZeros_zero)

lemma readFraction_none: "t = [] \<or> hd t \<noteq> CHR ''.'' \<Longrightarrow> readFraction t = Some ([], t)"
  by (cases t) (auto simp: readFraction_def)

lemma readFraction_some:
  assumes "list_all isDigit fd" and "fd \<noteq> []" and "rest = [] \<or> \<not> isDigit (hd rest)"
  shows "readFraction (''.'' @ fd @ rest) = Some (fd, rest)"
  using assms(2) by (simp add: readFraction_def digits_then [OF assms(1,3)])

lemma readExponent_none:
  "t = [] \<or> (hd t \<noteq> CHR ''e'' \<and> hd t \<noteq> CHR ''E'') \<Longrightarrow> readExponent t = Some (0, t)"
  by (cases t) (auto simp: readExponent_def)

lemma readExponent_plus:
  assumes "rest = [] \<or> \<not> isDigit (hd rest)"
  shows "readExponent (''e+'' @ digitsOf m @ rest) = Some (int m, rest)"
  using digitsOf_nonempty [of m]
  by (simp add: readExponent_def Let_def digits_then [OF digitsOf_digits assms] parseInt_digitsOf)

lemma readExponent_minus:
  assumes "rest = [] \<or> \<not> isDigit (hd rest)"
  shows "readExponent (''e-'' @ digitsOf m @ rest) = Some (- int m, rest)"
  using digitsOf_nonempty [of m]
  by (simp add: readExponent_def Let_def digits_then [OF digitsOf_digits assms] parseInt_digitsOf)

lemma digit_not_minus: "isDigit c \<Longrightarrow> c \<noteq> CHR ''-''"
  by (auto simp: isDigit_def)

lemma parseNumber_parts:
  assumes ip: "list_all isDigit ip" "ip \<noteq> []" "\<not> (hd ip = CHR ''0'' \<and> length ip > 1)"
    and t: "t = [] \<or> \<not> isDigit (hd t)"
    and fr: "readFraction t = Some (fd, r2)"
    and ex: "readExponent r2 = Some (x, r3)"
  shows "parseNumber ((if negative then ''-'' else []) @ ip @ t)
           = Some (JNumber (decimal negative (parseInt (ip @ fd)) (x - int (length fd))), r3)"
proof (cases negative)
  case True
  show ?thesis
    unfolding parseNumber_def Let_def
    using True ip(2,3)
    by (simp add: digits_then [OF ip(1) t] fr ex)
next
  case False
  have "isDigit (hd ip)" using ip(1,2) by (cases ip) simp_all
  then have "hd (ip @ t) \<noteq> CHR ''-''" using ip(2) by (simp add: digit_not_minus)
  then have p: "\<not> prefix ''-'' (ip @ t)" using ip(2) by (cases "ip @ t") auto
  show ?thesis
    unfolding parseNumber_def Let_def
    using False ip(2,3) p
    by (simp add: digits_then [OF ip(1) t] fr ex)
qed

lemma zeros_digits: "list_all isDigit (replicate j CHR ''0'')"
  by (simp add: list_all_iff isDigit_def)

lemma hd_digitsOf_nonzero: "s \<noteq> 0 \<Longrightarrow> hd (digitsOf s) \<noteq> CHR ''0''"
  using hd_digitsOf_zero by blast

lemma no_leading_zero: "s \<noteq> 0 \<Longrightarrow> \<not> (hd (digitsOf s @ xs) = CHR ''0'' \<and> P)"
  using hd_digitsOf_nonzero [of s] digitsOf_nonempty [of s] by simp

lemma numberEnd_fraction: "numberEnd rest \<Longrightarrow> readFraction rest = Some ([], rest)"
  by (rule readFraction_none) (auto simp: numberEnd_def)

lemma numberEnd_exponent: "numberEnd rest \<Longrightarrow> readExponent rest = Some (0, rest)"
  by (rule readExponent_none) (auto simp: numberEnd_def)

text \<open>The digits followed by zeros.\<close>

lemma parse_integer:
  assumes "s mod 10 \<noteq> 0" and "numberEnd rest"
  shows "parseNumber ((if negative then ''-'' else []) @ (digitsOf s @ replicate j CHR ''0'') @ rest)
           = Some (JNumber (Decimal negative s (int j)), rest)"
proof -
  from assms(1) have nz: "s \<noteq> 0" by auto
  let ?ip = "digitsOf s @ replicate j CHR ''0''"
  have d: "list_all isDigit ?ip" by (simp add: digitsOf_digits zeros_digits)
  have n: "?ip \<noteq> []" by (simp add: digitsOf_nonempty)
  have z: "\<not> (hd ?ip = CHR ''0'' \<and> length ?ip > 1)" by (rule no_leading_zero [OF nz])
  have v: "parseInt (?ip @ []) = s * 10 ^ j"
    by (simp add: parseInt_append parseInt_digitsOf parseInt_zeros)
  show ?thesis
    using parseNumber_parts [OF d n z numberEnd_digits [OF assms(2)]
        numberEnd_fraction [OF assms(2)] numberEnd_exponent [OF assms(2)], of negative]
    by (simp only: v) (simp add: decimal_power [OF assms(1)])
qed

text \<open>A decimal point inside the digits.\<close>

lemma parse_point_inside:
  assumes "s mod 10 \<noteq> 0" and "numberEnd rest" and "0 < m" and "m < length (digitsOf s)"
  shows "parseNumber ((if negative then ''-'' else []) @ take m (digitsOf s)
                       @ (''.'' @ drop m (digitsOf s) @ rest))
           = Some (JNumber (Decimal negative s (int m - int (length (digitsOf s)))), rest)"
proof -
  from assms(1) have nz: "s \<noteq> 0" by auto
  let ?ds = "digitsOf s"
  have all: "\<forall>c\<in>set ?ds. isDigit c" using digitsOf_digits [of s] by (simp add: list_all_iff)
  have d: "list_all isDigit (take m ?ds)"
    using all by (auto simp: list_all_iff dest: in_set_takeD)
  have n: "take m ?ds \<noteq> []" using assms(3,4) by auto
  have "hd (take m ?ds) = hd ?ds" using assms(3) by (cases ?ds; cases m) simp_all
  then have z: "\<not> (hd (take m ?ds) = CHR ''0'' \<and> length (take m ?ds) > 1)"
    using hd_digitsOf_nonzero [OF nz] by simp
  have t: "''.'' @ drop m ?ds @ rest = [] \<or> \<not> isDigit (hd (''.'' @ drop m ?ds @ rest))"
    by (simp add: isDigit_def)
  have fd: "list_all isDigit (drop m ?ds)"
    using all by (auto simp: list_all_iff dest: in_set_dropD)
  have fn: "drop m ?ds \<noteq> []" using assms(4) by simp
  have fr: "readFraction (''.'' @ drop m ?ds @ rest) = Some (drop m ?ds, rest)"
    by (rule readFraction_some [OF fd fn numberEnd_digits [OF assms(2)]])
  have v: "parseInt (take m ?ds @ drop m ?ds) = s" by (simp add: parseInt_digitsOf)
  have l: "0 - int (length (drop m ?ds)) = int m - int (length ?ds)"
    using assms(4) by simp
  show ?thesis
    using parseNumber_parts [OF d n z t fr numberEnd_exponent [OF assms(2)], of negative]
    by (simp only: v l) (simp add: decimal_done [OF assms(1)])
qed

text \<open>\<open>0.\<close>, zeros and the digits.\<close>

lemma parse_small:
  assumes "s mod 10 \<noteq> 0" and "numberEnd rest"
  shows "parseNumber ((if negative then ''-'' else []) @ ''0''
                       @ (''.'' @ (replicate j CHR ''0'' @ digitsOf s) @ rest))
           = Some (JNumber (Decimal negative s (- int j - int (length (digitsOf s)))), rest)"
proof -
  let ?fd = "replicate j CHR ''0'' @ digitsOf s"
  have d: "list_all isDigit ''0''" by (simp add: isDigit_def)
  have z: "\<not> (hd ''0'' = CHR ''0'' \<and> length ''0'' > 1)" by simp
  have t: "''.'' @ ?fd @ rest = [] \<or> \<not> isDigit (hd (''.'' @ ?fd @ rest))"
    by (simp add: isDigit_def)
  have fd: "list_all isDigit ?fd" by (simp add: digitsOf_digits zeros_digits)
  have fn: "?fd \<noteq> []" by (simp add: digitsOf_nonempty)
  have fr: "readFraction (''.'' @ ?fd @ rest) = Some (?fd, rest)"
    by (rule readFraction_some [OF fd fn numberEnd_digits [OF assms(2)]])
  have "parseInt (''0'' @ replicate j CHR ''0'' @ digitsOf s) = parseInt (replicate (Suc j) CHR ''0'' @ digitsOf s)"
    by simp
  also have "\<dots> = s" by (simp only: parseInt_append parseInt_zeros parseInt_digitsOf)
  finally have v: "parseInt (''0'' @ ?fd) = s" .
  have l: "0 - int (length ?fd) = - int j - int (length (digitsOf s))" by simp
  show ?thesis
    using parseNumber_parts [OF d _ z t fr numberEnd_exponent [OF assms(2)], of negative]
    by (simp only: v l) (simp add: decimal_done [OF assms(1)])
qed

text \<open>The exponent notation.\<close>

lemma digitsOf_split: "digitsOf s = hd (digitsOf s) # tl (digitsOf s)"
  using digitsOf_nonempty [of s] by simp

lemma parse_exponent:
  assumes "s mod 10 \<noteq> 0" and "numberEnd rest" and "x \<noteq> 0"
  shows "parseNumber ((if negative then ''-'' else []) @ [hd (digitsOf s)]
                       @ ((if int (length (digitsOf s)) = 1 then [] else ''.'' @ tl (digitsOf s))
                          @ ''e'' @ (if x < 0 then ''-'' else ''+'') @ digitsOf (nat (abs x)) @ rest))
           = Some (JNumber (Decimal negative s (x - (int (length (digitsOf s)) - 1))), rest)"
proof -
  from assms(1) have nz: "s \<noteq> 0" by auto
  let ?ds = "digitsOf s"
  let ?ex = "''e'' @ (if x < 0 then ''-'' else ''+'') @ digitsOf (nat (abs x)) @ rest"
  let ?t = "(if int (length ?ds) = 1 then [] else ''.'' @ tl ?ds) @ ?ex"
  have all: "\<forall>c\<in>set ?ds. isDigit c" using digitsOf_digits [of s] by (simp add: list_all_iff)
  have d: "list_all isDigit [hd ?ds]" by (simp add: hd_digitsOf_digit)
  have z: "\<not> (hd [hd ?ds] = CHR ''0'' \<and> length [hd ?ds] > 1)" by simp
  have t: "?t = [] \<or> \<not> isDigit (hd ?t)" by (simp add: isDigit_def)
  have exd: "?ex = [] \<or> \<not> isDigit (hd ?ex)" by (simp add: isDigit_def)
  have ex: "readExponent ?ex = Some (x, rest)"
  proof (cases "x < 0")
    case True
    then show ?thesis
      using readExponent_minus [OF numberEnd_digits [OF assms(2)], of "nat (abs x)"] by simp
  next
    case False
    then show ?thesis
      using readExponent_plus [OF numberEnd_digits [OF assms(2)], of "nat (abs x)"] by simp
  qed
  show ?thesis
  proof (cases "int (length ?ds) = 1")
    case True
    then have tl: "tl ?ds = []" by (cases ?ds) simp_all
    have fr: "readFraction ?t = Some ([], ?ex)"
      using True by (simp add: readFraction_def)
    have v: "parseInt ([hd ?ds] @ []) = s"
      using parseInt_digitsOf [of s] digitsOf_split [of s] tl by simp
    show ?thesis
      using parseNumber_parts [OF d _ z t fr ex, of negative] True
      by (simp only: v) (simp add: decimal_done [OF assms(1)])
  next
    case False
    then have tn: "tl ?ds \<noteq> []" using digitsOf_nonempty [of s] by (cases ?ds) simp_all
    have td: "list_all isDigit (tl ?ds)"
      using all digitsOf_nonempty [of s] by (auto simp: list_all_iff dest: list.set_sel(2))
    have "readFraction (''.'' @ tl ?ds @ ?ex) = Some (tl ?ds, ?ex)"
      by (rule readFraction_some [OF td tn exd])
    then have fr: "readFraction ?t = Some (tl ?ds, ?ex)" using False by simp
    have v: "parseInt ([hd ?ds] @ tl ?ds) = s"
      using parseInt_digitsOf [of s] digitsOf_split [of s] by simp
    have l: "x - int (length (tl ?ds)) = x - (int (length ?ds) - 1)"
      using digitsOf_nonempty [of s] by (cases ?ds) simp_all
    show ?thesis
      using parseNumber_parts [OF d _ z t fr ex, of negative]
      by (simp only: v l) (simp add: decimal_done [OF assms(1)])
  qed
qed

lemma parse_zero:
  assumes "numberEnd rest"
  shows "parseNumber (''0'' @ rest) = Some (JNumber (Decimal False 0 0), rest)"
proof -
  have d: "list_all isDigit ''0''" by (simp add: isDigit_def)
  have z: "\<not> (hd ''0'' = CHR ''0'' \<and> length ''0'' > 1)" by simp
  have v: "parseInt (''0'' @ []) = 0" by (simp add: parseInt_def digitValue_def)
  show ?thesis
    using parseNumber_parts [OF d _ z numberEnd_digits [OF assms]
        numberEnd_fraction [OF assms] numberEnd_exponent [OF assms], of False]
    by (simp only: v) (simp add: decimal_zero)
qed

lemma parse_decimalText:
  assumes "s mod 10 \<noteq> 0" and "numberEnd rest"
  shows "parseNumber ((if negative then ''-'' else []) @ decimalText s e @ rest)
           = Some (JNumber (Decimal negative s e), rest)"
proof -
  let ?ds = "digitsOf s"
  let ?k = "int (length ?ds)"
  let ?n = "?k + e"
  have kpos: "0 < ?k" using digitsOf_nonempty [of s] by simp
  consider (a) "0 \<le> e \<and> ?n \<le> 21"
    | (b) "\<not> (0 \<le> e \<and> ?n \<le> 21)" "0 < ?n \<and> ?n \<le> 21"
    | (c) "\<not> (0 \<le> e \<and> ?n \<le> 21)" "\<not> (0 < ?n \<and> ?n \<le> 21)" "- 6 < ?n \<and> ?n \<le> 0"
    | (d) "\<not> (0 \<le> e \<and> ?n \<le> 21)" "\<not> (0 < ?n \<and> ?n \<le> 21)" "\<not> (- 6 < ?n \<and> ?n \<le> 0)"
    by blast
  then show ?thesis
  proof cases
    case a
    then have "decimalText s e = ?ds @ replicate (nat e) CHR ''0''"
      by (simp add: decimalText_def numberToString_def Let_def)
    then show ?thesis
      using parse_integer [OF assms, of negative "nat e"] a by simp
  next
    case b
    then have e: "e < 0" by linarith
    have dt: "decimalText s e = take (nat ?n) ?ds @ ''.'' @ drop (nat ?n) ?ds"
      using b by (simp add: decimalText_def numberToString_def Let_def)
    have m: "0 < nat ?n" "nat ?n < length ?ds" using b e by linarith+
    have "int (nat ?n) - ?k = e" using b by linarith
    then show ?thesis
      using parse_point_inside [OF assms m, of negative] dt by simp
  next
    case c
    have dt: "decimalText s e = ''0.'' @ replicate (nat (- ?n)) CHR ''0'' @ ?ds"
      using c by (simp add: decimalText_def numberToString_def Let_def)
    have "- int (nat (- ?n)) - ?k = e" using c by linarith
    then show ?thesis
      using parse_small [OF assms, of negative "nat (- ?n)"] dt by simp
  next
    case d
    have dt: "decimalText s e =
        (if ?k = 1 then ?ds else [hd ?ds] @ ''.'' @ tl ?ds)
        @ ''e'' @ (if ?n - 1 < 0 then ''-'' else ''+'') @ digitsOf (nat (abs (?n - 1)))"
      unfolding decimalText_def numberToString_def Let_def using d by (simp only: if_False)
    have one: "?k = 1 \<Longrightarrow> ?ds = [hd ?ds]"
      by (cases ?ds) simp_all
    have x: "?n - 1 \<noteq> 0" using d by linarith
    have "?n - 1 - (?k - 1) = e" by simp
    then show ?thesis
      using parse_exponent [OF assms x, of negative] dt one
      by (cases "?k = 1") simp_all
  qed
qed

lemma parseNumber_roundtrip:
  assumes "jsonNumber x" and "numberEnd rest"
  shows "parseNumber (Number_toString x @ rest) = Some (JNumber x, rest)"
proof (cases x)
  case (Decimal negative s e)
  show ?thesis
  proof (cases "s = 0")
    case True
    with assms(1) Decimal have "x = Decimal False 0 0" by simp
    then show ?thesis
      using parse_zero [OF assms(2)] by (simp add: Number_toString_def stripZeros_zero)
  next
    case False
    with assms(1) Decimal have m: "s mod 10 \<noteq> 0" by simp
    show ?thesis
      using parse_decimalText [OF m assms(2), of negative e] Decimal False
      by (simp add: Number_toString_def stripZeros_done [OF m])
  qed
qed (use assms(1) in simp_all)

lemma decimalText_digit: "decimalText s e \<noteq> [] \<and> isDigit (hd (decimalText s e))"
proof -
  let ?ds = "digitsOf s"
  have ne: "?ds \<noteq> []" by (rule digitsOf_nonempty)
  have hd: "isDigit (hd ?ds)" by (rule hd_digitsOf_digit)
  have tk: "0 < m \<Longrightarrow> take m ?ds \<noteq> [] \<and> hd (take m ?ds) = hd ?ds" for m
    using ne by (cases ?ds; cases m) simp_all
  show ?thesis
    unfolding decimalText_def numberToString_def Let_def
    using ne hd tk [of "nat (int (length ?ds) + e)"]
    by (auto simp: isDigit_def)
qed

lemma Number_toString_start:
  assumes "isFinite x"
  shows "Number_toString x \<noteq> []"
    and "hd (Number_toString x) = CHR ''-'' \<or> isDigit (hd (Number_toString x))"
proof -
  from assms obtain negative s e where x: "x = Decimal negative s e" by (cases x) simp_all
  obtain s' e' where st: "stripZeros s e = (s', e')" by (cases "stripZeros s e")
  show "Number_toString x \<noteq> []"
    using decimalText_digit [of s' e'] by (simp add: x Number_toString_def st)
  show "hd (Number_toString x) = CHR ''-'' \<or> isDigit (hd (Number_toString x))"
    using decimalText_digit [of s' e'] by (simp add: x Number_toString_def st isDigit_def)
qed

lemma stripZeros_result: "stripZeros s e = (s', e') \<Longrightarrow> s' = 0 \<or> s' mod 10 \<noteq> 0"
proof (induction s e rule: stripZeros.induct)
  case (1 s e)
  show ?case
  proof (cases "s \<noteq> 0 \<and> s mod 10 = 0")
    case True
    then have "stripZeros s e = stripZeros (s div 10) (e + 1)" by (subst stripZeros.simps) simp
    with 1 True show ?thesis by simp
  next
    case False
    then have "stripZeros s e = (s, e)" by (subst stripZeros.simps) auto
    with "1.prems" False show ?thesis by auto
  qed
qed

lemma jsonNumber_numberOfNat: "jsonNumber (numberOfNat n)"
proof -
  obtain s' e' where st: "stripZeros n 0 = (s', e')" by (cases "stripZeros n 0")
  from stripZeros_result [OF st] show ?thesis
    by (auto simp: numberOfNat_def decimal_def st)
qed

subsection \<open>Strings are read back\<close>

lemma hexValue_zero: "hexValue CHR ''0'' = Some 0"
  by (simp add: hexValue_def isDigit_def)

lemma hexValue_low: "(k::nat) < 10 \<Longrightarrow> hexValue (char_of (48 + k)) = Some k"
  by (simp add: hexValue_def isDigit_char_of)

lemma hex_letters: "(j::nat) < 6 \<Longrightarrow> j \<in> {0, 1, 2, 3, 4, 5}"
  by auto

lemma hexValue_high: "(j::nat) < 6 \<Longrightarrow> hexValue (char_of (97 + j)) = Some (10 + j)"
  by (drule hex_letters) (auto simp: hexValue_def isDigit_def char_of_eq_iff)

lemma hexValue_hexDigit: "(k::nat) < 16 \<Longrightarrow> hexValue (hexDigit k) = Some k"
proof (cases "k < 10")
  case True
  then show ?thesis by (simp add: hexDigit_def hexValue_low)
next
  case False
  assume "k < 16"
  with False have j: "k - 10 < 6" and k: "87 + k = 97 + (k - 10)" and k': "10 + (k - 10) = k"
    by simp_all
  from hexValue_high [OF j] show ?thesis
    using False by (simp only: hexDigit_def if_False k k')
qed

lemma unicodeEscape_control:
  assumes "(of_char c :: nat) < 32"
  shows "unicodeEscape CHR ''0'' CHR ''0'' (hexDigit (of_char c div 16)) (hexDigit (of_char c mod 16)) = Some c"
proof -
  have a: "hexValue (hexDigit (of_char c div 16)) = Some (of_char c div 16)"
    using assms by (intro hexValue_hexDigit) simp
  have b: "hexValue (hexDigit (of_char c mod 16)) = Some (of_char c mod 16)"
    by (intro hexValue_hexDigit) simp
  have "char_of (16 * (of_char c div 16) + of_char c mod 16 :: nat) = c" by simp
  then show ?thesis by (simp add: unicodeEscape_def hexValue_zero a b)
qed

lemma parseString_closing: "parseString acc (dquote # rest) = Some (acc, rest)"
  by (cases rest) simp_all

lemma parseString_simple:
  assumes "simpleEscape e = Some c" and "e \<noteq> CHR ''u''" and "parseString (acc @ [c]) (t # ts) = Some r"
  shows "parseString acc (backslash # e # t # ts) = Some r"
  using assms by (simp add: dquote_def backslash_def)

lemma parseString_unicode:
  assumes "unicodeEscape a b x y = Some c" and "parseString (acc @ [c]) tail = Some r"
  shows "parseString acc (backslash # CHR ''u'' # a # b # x # y # tail) = Some r"
  using assms by (simp add: dquote_def backslash_def)

lemma parseString_plain:
  assumes "c \<noteq> dquote" and "c \<noteq> backslash" and "\<not> (of_char c :: nat) < 32"
    and "parseString (acc @ [c]) (t # ts) = Some r"
  shows "parseString acc (c # t # ts) = Some r"
  using assms by simp

lemma escapeChar_cases:
  obtains (simple) e where "escapeChar c = [backslash, e]" "simpleEscape e = Some c" "e \<noteq> CHR ''u''"
  | (ctl) "escapeChar c = [backslash, CHR ''u'', CHR ''0'', CHR ''0'',
               hexDigit (of_char c div 16), hexDigit (of_char c mod 16)]" "(of_char c :: nat) < 32"
  | (plain) "escapeChar c = [c]" "c \<noteq> dquote" "c \<noteq> backslash" "\<not> (of_char c :: nat) < 32"
proof -
  consider "c = dquote" | "c = backslash" | "c = CHR 0x08" | "c = CHR 0x0C"
    | "c = CHR 0x0A" | "c = CHR 0x0D" | "c = CHR 0x09"
    | "c \<noteq> dquote" "c \<noteq> backslash" "c \<noteq> CHR 0x08" "c \<noteq> CHR 0x0C" "c \<noteq> CHR 0x0A"
        "c \<noteq> CHR 0x0D" "c \<noteq> CHR 0x09"
    by blast
  then show ?thesis
  proof cases
    case 1
    then show ?thesis
      by (intro simple [of dquote]) (simp_all add: escapeChar_def simpleEscape_def dquote_def)
  next
    case 2
    then show ?thesis
      by (intro simple [of backslash]) (simp_all add: escapeChar_def simpleEscape_def dquote_def backslash_def)
  next
    case 3
    then show ?thesis
      by (intro simple [of "CHR ''b''"]) (simp_all add: escapeChar_def simpleEscape_def dquote_def backslash_def)
  next
    case 4
    then show ?thesis
      by (intro simple [of "CHR ''f''"]) (simp_all add: escapeChar_def simpleEscape_def dquote_def backslash_def)
  next
    case 5
    then show ?thesis
      by (intro simple [of "CHR ''n''"]) (simp_all add: escapeChar_def simpleEscape_def dquote_def backslash_def)
  next
    case 6
    then show ?thesis
      by (intro simple [of "CHR ''r''"]) (simp_all add: escapeChar_def simpleEscape_def dquote_def backslash_def)
  next
    case 7
    then show ?thesis
      by (intro simple [of "CHR ''t''"]) (simp_all add: escapeChar_def simpleEscape_def dquote_def backslash_def)
  next
    case 8
    show ?thesis
    proof (cases "(of_char c :: nat) < 32")
      case True
      with 8 show ?thesis by (intro ctl) (simp_all add: escapeChar_def)
    next
      case False
      with 8 show ?thesis by (intro plain) (simp_all add: escapeChar_def)
    qed
  qed
qed

lemma parseString_escaped:
  assumes "parseString (acc @ [c]) (t # ts) = Some r"
  shows "parseString acc (escapeChar c @ t # ts) = Some r"
proof (cases c rule: escapeChar_cases)
  case (simple e)
  show ?thesis
    unfolding simple(1) using parseString_simple [OF simple(2,3) assms] by simp
next
  case ctl
  show ?thesis
    unfolding ctl(1) using parseString_unicode [OF unicodeEscape_control [OF ctl(2)] assms] by simp
next
  case plain
  show ?thesis
    unfolding plain(1) using parseString_plain [OF plain(2,3,4) assms] by simp
qed

lemma parseString_roundtrip:
  "parseString acc (concat (map escapeChar s) @ dquote # rest) = Some (acc @ s, rest)"
proof (induction s arbitrary: acc)
  case Nil
  show ?case by (simp add: parseString_closing)
next
  case (Cons c s)
  obtain t ts where tail: "concat (map escapeChar s) @ dquote # rest = t # ts"
    by (cases "concat (map escapeChar s) @ dquote # rest") auto
  have "parseString (acc @ [c]) (t # ts) = Some ((acc @ [c]) @ s, rest)"
    using Cons.IH [of "acc @ [c]"] tail by simp
  from parseString_escaped [OF this]
  show ?case using tail by simp
qed

lemma parseString_quote: "parseString [] (drop 1 (quote s @ rest)) = Some (s, rest)"
  using parseString_roundtrip [of "[]" s rest] by (simp add: quote_def)

subsection \<open>Values are read back\<close>

lemma startsValue_not_space: "startsValue c \<Longrightarrow> \<not> isJsonSpace c"
  by (auto simp: startsValue_def isJsonSpace_def dquote_def)

lemma startsValue_not_closer: "startsValue c \<Longrightarrow> c \<noteq> CHR '']'' \<and> c \<noteq> CHR ''}''"
  by (auto simp: startsValue_def dquote_def)

lemma isDigit_startsValue: "isDigit c \<Longrightarrow> startsValue c"
  by (auto simp: startsValue_def isDigit_def)

lemma stringify_nonempty: "stringifyIndent ind v \<noteq> []"
  by (cases v) (simp_all add: Number_toString_start(1) quote_def)

lemma hd_stringify: "startsValue (hd (stringifyIndent ind v))"
proof (cases v)
  case (JNumber x)
  show ?thesis
  proof (cases "isFinite x")
    case True
    from Number_toString_start(2) [OF this] show ?thesis
      using JNumber True by (auto simp: isDigit_startsValue) (simp add: startsValue_def)
  next
    case False
    with JNumber show ?thesis by (simp add: startsValue_def)
  qed
qed (simp_all add: startsValue_def quote_def)

lemma skipWs_pre:
  assumes "list_all isJsonSpace pre" and "x \<noteq> []" and "\<not> isJsonSpace (hd x)"
  shows "skipWs (pre @ x) = x"
proof -
  from assms(2) obtain c cs where x: "x = c # cs" by (cases x) auto
  have "dropWhile isJsonSpace (pre @ c # cs) = c # cs"
    using assms(1,3) x by (simp add: dropWhile_append3 list_all_iff)
  then show ?thesis by (simp add: skipWs_def x)
qed

lemma skipWs_value:
  assumes "list_all isJsonSpace pre"
  shows "skipWs (pre @ stringifyIndent ind v @ rest) = stringifyIndent ind v @ rest"
  using stringify_nonempty [of ind v] hd_stringify [of ind v]
  by (intro skipWs_pre [OF assms]) (simp_all add: startsValue_not_space)

lemma skipWs_noop: "x \<noteq> [] \<Longrightarrow> \<not> isJsonSpace (hd x) \<Longrightarrow> skipWs x = x"
  using skipWs_pre [of "[]" x] by simp

lemma joinWith_Cons: "ys \<noteq> [] \<Longrightarrow> joinWith sep (x # ys) = x @ sep @ joinWith sep ys"
  by (cases ys) simp_all

lemma length_joinWith: "sum_list (map length xs) \<le> length (joinWith sep xs)"
  by (induction sep xs rule: joinWith.induct) simp_all

lemma readsD:
  assumes "reads ind v" and "parseFuel v \<le> fuel" and "list_all isJsonSpace pre" and "numberEnd rest"
  shows "parseValue fuel (pre @ stringifyIndent ind v @ rest) = Some (v, rest)"
  using assms unfolding reads_def by blast

lemma hd_prefix: "prefix (c # cs) t \<Longrightarrow> hd t = c"
  by (cases t) simp_all

lemma pv_null: "skipWs s = ''null'' @ rest \<Longrightarrow> parseValue (Suc f) s = Some (JNull, rest)"
  by (simp add: Let_def)

lemma pv_true: "skipWs s = ''true'' @ rest \<Longrightarrow> parseValue (Suc f) s = Some (JBool True, rest)"
  by (simp add: Let_def)

lemma pv_false: "skipWs s = ''false'' @ rest \<Longrightarrow> parseValue (Suc f) s = Some (JBool False, rest)"
  by (simp add: Let_def)

lemma pv_string:
  assumes "skipWs s = quote str @ rest"
  shows "parseValue (Suc f) s = Some (JString str, rest)"
proof -
  have q: "quote str @ rest = dquote # (concat (map escapeChar str) @ dquote # rest)"
    by (simp add: quote_def)
  have p: "parseString [] (drop 1 (quote str @ rest)) = Some (str, rest)"
    by (rule parseString_quote)
  have n: "\<not> prefix ''null'' (quote str @ rest)" "\<not> prefix ''true'' (quote str @ rest)"
    "\<not> prefix ''false'' (quote str @ rest)" "prefix [dquote] (quote str @ rest)"
    unfolding q by (simp_all add: dquote_def)
  show ?thesis
    by (simp only: parseValue.simps Let_def assms n if_True if_False p option.map prod.sel)
qed

lemma jsonNumber_finite: "jsonNumber x \<Longrightarrow> isFinite x"
  by (cases x) simp_all

lemma pv_number:
  assumes "skipWs s = Number_toString x @ rest" and "numberEnd rest" and "jsonNumber x"
  shows "parseValue (Suc f) s = Some (JNumber x, rest)"
proof -
  let ?t = "Number_toString x @ rest"
  have h: "hd ?t = CHR ''-'' \<or> isDigit (hd ?t)"
    using Number_toString_start [OF jsonNumber_finite [OF assms(3)]] by simp
  have n: "\<not> prefix ''null'' ?t" "\<not> prefix ''true'' ?t" "\<not> prefix ''false'' ?t"
    "\<not> prefix [dquote] ?t" "\<not> prefix ''['' ?t" "\<not> prefix ''{'' ?t"
    using h by (auto dest!: hd_prefix simp: isDigit_def dquote_def)
  show ?thesis
    by (simp only: parseValue.simps Let_def assms(1) n if_False parseNumber_roundtrip [OF assms(3,2)])
qed

lemma pv_empty_array: "skipWs s = ''[]'' @ rest \<Longrightarrow> parseValue (Suc f) s = Some (JArray [], rest)"
  by (simp add: Let_def dquote_def skipWs_def isJsonSpace_def)

lemma pv_empty_object: "skipWs s = ''{}'' @ rest \<Longrightarrow> parseValue (Suc f) s = Some (JObject [], rest)"
  by (simp add: Let_def dquote_def skipWs_def isJsonSpace_def)

lemma pv_array:
  assumes "skipWs s = ''['' @ body" and "\<not> prefix '']'' (skipWs body)"
  shows "parseValue (Suc f) s = map_option (\<lambda>p. (JArray (fst p), snd p)) (parseElements f [] body)"
  using assms by (simp add: Let_def dquote_def)

lemma pv_object:
  assumes "skipWs s = ''{'' @ body" and "\<not> prefix ''}'' (skipWs body)"
  shows "parseValue (Suc f) s = map_option (\<lambda>p. (JObject (fst p), snd p)) (parseMembers f [] body)"
  using assms by (simp add: Let_def dquote_def)

lemma space_LF: "isJsonSpace LF" and space_blank: "isJsonSpace CHR '' ''"
  by (simp_all add: isJsonSpace_def LF_def)

lemma not_space_punct:
  "\<not> isJsonSpace CHR '',''" "\<not> isJsonSpace CHR '']''" "\<not> isJsonSpace CHR ''}''"
  "\<not> isJsonSpace CHR '':''" "\<not> isJsonSpace dquote"
  by (simp_all add: isJsonSpace_def dquote_def)

lemma numberEnd_punct:
  "numberEnd (LF # x)" "numberEnd (CHR '','' # x)"
  by (simp_all add: numberEnd_def isDigit_def LF_def)

lemma mapSet_fresh: "k \<notin> fst ` set acc \<Longrightarrow> mapSet k v acc = acc @ [(k, v)]"
  by (induction acc) auto

lemma elementsText_single:
  "elementsText ind [v] rest =
     (LF # ind @ ''  '') @ stringifyIndent (ind @ ''  '') v @ (LF # ind @ '']'' @ rest)"
  by (simp add: elementsText_def)

lemma elementsText_Cons:
  "vs \<noteq> [] \<Longrightarrow> elementsText ind (v # vs) rest =
     (LF # ind @ ''  '') @ stringifyIndent (ind @ ''  '') v @ (CHR '','' # elementsText ind vs rest)"
  by (simp add: elementsText_def joinWith_Cons)

lemma membersText_single:
  "membersText ind [kv] rest =
     (LF # ind @ ''  '') @ quote (fst kv) @ ('': '' @ stringifyIndent (ind @ ''  '') (snd kv)
        @ (LF # ind @ ''}'' @ rest))"
  by (simp add: membersText_def)

lemma membersText_Cons:
  "kvs \<noteq> [] \<Longrightarrow> membersText ind (kv # kvs) rest =
     (LF # ind @ ''  '') @ quote (fst kv) @ ('': '' @ stringifyIndent (ind @ ''  '') (snd kv)
        @ (CHR '','' # membersText ind kvs rest))"
  by (simp add: membersText_def joinWith_Cons)

lemma skipWs_closer:
  assumes "list_all isJsonSpace ind" and "\<not> isJsonSpace c"
  shows "skipWs (LF # ind @ c # rest) = c # rest"
  using skipWs_pre [of "LF # ind" "c # rest"] assms by (simp add: space_LF)

lemma pe_step_last:
  assumes "parseValue f s = Some (v, rest')" and "skipWs rest' = CHR '']'' # rest"
  shows "parseElements (Suc f) acc s = Some (acc @ [v], rest)"
  using assms by simp

lemma pe_step_more:
  assumes "parseValue f s = Some (v, rest')" and "skipWs rest' = CHR '','' # remainder"
  shows "parseElements (Suc f) acc s = parseElements f (acc @ [v]) remainder"
  using assms by simp

lemma parseElements_roundtrip:
  "vs \<noteq> [] \<Longrightarrow> (\<forall>v\<in>set vs. reads (ind @ ''  '') v) \<Longrightarrow> list_all isJsonSpace ind \<Longrightarrow>
   sum_list (map (\<lambda>v. Suc (parseFuel v)) vs) \<le> fuel \<Longrightarrow>
   parseElements fuel acc (elementsText ind vs rest) = Some (acc @ vs, rest)"
proof (induction vs arbitrary: acc fuel rule: list_nonempty_induct)
  case (single v)
  then obtain f where fuel: "fuel = Suc f" and f: "parseFuel v \<le> f"
    by (cases fuel) auto
  have pre: "list_all isJsonSpace (LF # ind @ ''  '')"
    using single.prems(2) by (simp add: space_LF space_blank)
  have pv: "parseValue f (elementsText ind [v] rest) = Some (v, LF # ind @ '']'' @ rest)"
    unfolding elementsText_single
    using single.prems(1) by (intro readsD [OF _ f pre]) (simp_all add: numberEnd_punct)
  have sk: "skipWs (LF # ind @ '']'' @ rest) = CHR '']'' # rest"
    using skipWs_closer [OF single.prems(2) not_space_punct(2), of rest] by simp
  show ?case unfolding fuel using pe_step_last [OF pv sk] by simp
next
  case (cons v vs)
  then obtain f where fuel: "fuel = Suc f" and f: "parseFuel v \<le> f"
    and fs: "sum_list (map (\<lambda>v. Suc (parseFuel v)) vs) \<le> f"
    by (cases fuel) auto
  have pre: "list_all isJsonSpace (LF # ind @ ''  '')"
    using cons.prems(2) by (simp add: space_LF space_blank)
  have pv: "parseValue f (elementsText ind (v # vs) rest) = Some (v, CHR '','' # elementsText ind vs rest)"
    unfolding elementsText_Cons [OF cons.hyps]
    using cons.prems(1) by (intro readsD [OF _ f pre]) (simp_all add: numberEnd_punct)
  have sk: "skipWs (CHR '','' # elementsText ind vs rest) = CHR '','' # elementsText ind vs rest"
    by (rule skipWs_noop) (simp_all add: not_space_punct)
  have "parseElements f (acc @ [v]) (elementsText ind vs rest) = Some ((acc @ [v]) @ vs, rest)"
    using cons.prems by (intro cons.IH fs) simp_all
  then show ?case unfolding fuel using pe_step_more [OF pv sk, of acc] by simp
qed

lemma pm_step:
  assumes "skipWs s = quote k @ '': '' @ t"
    and "parseValue f (CHR '' '' # t) = Some (v, rest')"
  shows "parseMembers (Suc f) acc s =
           (if prefix '','' (skipWs rest') then parseMembers f (mapSet k v acc) (drop 1 (skipWs rest'))
            else if prefix ''}'' (skipWs rest') then Some (mapSet k v acc, drop 1 (skipWs rest'))
            else None)"
proof -
  have q: "prefix [dquote] (quote k @ '': '' @ t)" by (simp add: quote_def)
  have p: "parseString [] (drop 1 (quote k @ '': '' @ t)) = Some (k, '': '' @ t)"
    by (rule parseString_quote)
  have sk: "skipWs ('': '' @ t) = '': '' @ t"
    by (rule skipWs_noop) (simp_all add: not_space_punct)
  have c: "prefix '':'' ('': '' @ t)" and d: "drop 1 ('': '' @ t) = CHR '' '' # t" by simp_all
  show ?thesis
    by (simp only: parseMembers.simps assms(1) q if_True p option.case prod.case sk c d assms(2))
qed

lemma parseMembers_roundtrip:
  "kvs \<noteq> [] \<Longrightarrow> (\<forall>kv\<in>set kvs. reads (ind @ ''  '') (snd kv)) \<Longrightarrow> list_all isJsonSpace ind \<Longrightarrow>
   sum_list (map (\<lambda>kv. Suc (parseFuel (snd kv))) kvs) \<le> fuel \<Longrightarrow>
   distinct (map fst (acc @ kvs)) \<Longrightarrow>
   parseMembers fuel acc (membersText ind kvs rest) = Some (acc @ kvs, rest)"
proof (induction kvs arbitrary: acc fuel rule: list_nonempty_induct)
  case (single kv)
  then obtain f where fuel: "fuel = Suc f" and f: "parseFuel (snd kv) \<le> f"
    by (cases fuel) auto
  have pre: "list_all isJsonSpace (LF # ind @ ''  '')"
    using single.prems(2) by (simp add: space_LF space_blank)
  have sk0: "skipWs (membersText ind [kv] rest) =
      quote (fst kv) @ '': '' @ (stringifyIndent (ind @ ''  '') (snd kv) @ (LF # ind @ ''}'' @ rest))"
    unfolding membersText_single
    by (rule skipWs_pre [OF pre]) (simp_all add: quote_def not_space_punct)
  have pv: "parseValue f (CHR '' '' # stringifyIndent (ind @ ''  '') (snd kv) @ (LF # ind @ ''}'' @ rest))
            = Some (snd kv, LF # ind @ ''}'' @ rest)"
    using readsD [OF _ f, of "ind @ ''  ''" "[CHR '' '']" "LF # ind @ ''}'' @ rest"] single.prems(1)
    by (simp add: space_blank numberEnd_punct)
  have sk: "skipWs (LF # ind @ ''}'' @ rest) = CHR ''}'' # rest"
    using skipWs_closer [OF single.prems(2) not_space_punct(3), of rest] by simp
  have fresh: "mapSet (fst kv) (snd kv) acc = acc @ [kv]"
    using single.prems(4) by (intro mapSet_fresh [THEN trans]) auto
  show ?case
    unfolding fuel by (simp only: pm_step [OF sk0 pv] sk fresh) simp
next
  case (cons kv kvs)
  then obtain f where fuel: "fuel = Suc f" and f: "parseFuel (snd kv) \<le> f"
    and fs: "sum_list (map (\<lambda>kv. Suc (parseFuel (snd kv))) kvs) \<le> f"
    by (cases fuel) auto
  have pre: "list_all isJsonSpace (LF # ind @ ''  '')"
    using cons.prems(2) by (simp add: space_LF space_blank)
  have sk0: "skipWs (membersText ind (kv # kvs) rest) =
      quote (fst kv) @ '': '' @ (stringifyIndent (ind @ ''  '') (snd kv) @ (CHR '','' # membersText ind kvs rest))"
    unfolding membersText_Cons [OF cons.hyps]
    by (rule skipWs_pre [OF pre]) (simp_all add: quote_def not_space_punct)
  have pv: "parseValue f (CHR '' '' # stringifyIndent (ind @ ''  '') (snd kv) @ (CHR '','' # membersText ind kvs rest))
            = Some (snd kv, CHR '','' # membersText ind kvs rest)"
    using readsD [OF _ f, of "ind @ ''  ''" "[CHR '' '']" "CHR '','' # membersText ind kvs rest"] cons.prems(1)
    by (simp add: space_blank numberEnd_punct)
  have sk: "skipWs (CHR '','' # membersText ind kvs rest) = CHR '','' # membersText ind kvs rest"
    by (rule skipWs_noop) (simp_all add: not_space_punct)
  have fresh: "mapSet (fst kv) (snd kv) acc = acc @ [kv]"
    using cons.prems(4) by (intro mapSet_fresh [THEN trans]) auto
  have "parseMembers f (acc @ [kv]) (membersText ind kvs rest) = Some ((acc @ [kv]) @ kvs, rest)"
    using cons.prems by (intro cons.IH fs) simp_all
  then show ?case
    unfolding fuel by (simp only: pm_step [OF sk0 pv] sk fresh) simp
qed

lemma stringify_array:
  "vs \<noteq> [] \<Longrightarrow> stringifyIndent ind (JArray vs) @ rest = ''['' @ elementsText ind vs rest"
  by (simp add: elementsText_def)

lemma stringify_object:
  "kvs \<noteq> [] \<Longrightarrow> stringifyIndent ind (JObject kvs) @ rest = ''{'' @ membersText ind kvs rest"
  by (simp add: membersText_def)

lemma skipWs_elementsText:
  assumes "vs \<noteq> []" and "list_all isJsonSpace ind"
  shows "\<not> prefix '']'' (skipWs (elementsText ind vs rest))"
proof -
  obtain v ws where vs: "vs = v # ws" using assms(1) by (cases vs) auto
  obtain remainder where m: "elementsText ind vs rest
      = (LF # ind @ ''  '') @ stringifyIndent (ind @ ''  '') v @ remainder"
    unfolding vs by (cases "ws = []") (simp_all add: elementsText_single elementsText_Cons)
  have pre: "list_all isJsonSpace (LF # ind @ ''  '')"
    using assms(2) by (simp add: space_LF space_blank)
  have "skipWs (elementsText ind vs rest) = stringifyIndent (ind @ ''  '') v @ remainder"
    unfolding m by (rule skipWs_value [OF pre])
  moreover have "hd (stringifyIndent (ind @ ''  '') v @ remainder) \<noteq> CHR '']''"
    using hd_stringify [of "ind @ ''  ''" v] stringify_nonempty [of "ind @ ''  ''" v]
    by (auto dest: startsValue_not_closer)
  ultimately show ?thesis by (auto dest: hd_prefix)
qed

lemma skipWs_membersText:
  assumes "kvs \<noteq> []" and "list_all isJsonSpace ind"
  shows "\<not> prefix ''}'' (skipWs (membersText ind kvs rest))"
proof -
  obtain kv ws where kvs: "kvs = kv # ws" using assms(1) by (cases kvs) auto
  obtain remainder where m: "membersText ind kvs rest = (LF # ind @ ''  '') @ (dquote # remainder)"
    unfolding kvs by (cases "ws = []") (simp_all add: membersText_single membersText_Cons quote_def)
  have pre: "list_all isJsonSpace (LF # ind @ ''  '')"
    using assms(2) by (simp add: space_LF space_blank)
  have "skipWs (membersText ind kvs rest) = dquote # remainder"
    unfolding m by (rule skipWs_pre [OF pre]) (simp_all add: not_space_punct)
  then show ?thesis by (simp add: dquote_def)
qed

lemma reads_all: "representable v \<Longrightarrow> list_all isJsonSpace ind \<Longrightarrow> reads ind v"
proof (induction v arbitrary: ind)
  case JNull
  show ?case unfolding reads_def
  proof (intro allI impI)
    fix fuel pre rest
    assume "parseFuel JNull \<le> fuel" and pre: "list_all isJsonSpace pre"
    then obtain f where fuel: "fuel = Suc f" by (cases fuel) auto
    have "skipWs (pre @ stringifyIndent ind JNull @ rest) = ''null'' @ rest"
      using skipWs_value [OF pre, of ind JNull rest] by simp
    then show "parseValue fuel (pre @ stringifyIndent ind JNull @ rest) = Some (JNull, rest)"
      unfolding fuel by (rule pv_null)
  qed
next
  case (JBool b)
  show ?case unfolding reads_def
  proof (intro allI impI)
    fix fuel pre rest
    assume "parseFuel (JBool b) \<le> fuel" and pre: "list_all isJsonSpace pre"
    then obtain f where fuel: "fuel = Suc f" by (cases fuel) auto
    show "parseValue fuel (pre @ stringifyIndent ind (JBool b) @ rest) = Some (JBool b, rest)"
    proof (cases b)
      case True
      have "skipWs (pre @ stringifyIndent ind (JBool b) @ rest) = ''true'' @ rest"
        using skipWs_value [OF pre, of ind "JBool b" rest] True by simp
      then show ?thesis unfolding fuel using True by (simp only: pv_true)
    next
      case False
      have "skipWs (pre @ stringifyIndent ind (JBool b) @ rest) = ''false'' @ rest"
        using skipWs_value [OF pre, of ind "JBool b" rest] False by simp
      then show ?thesis unfolding fuel using False by (simp only: pv_false)
    qed
  qed
next
  case (JNumber x)
  then have jn: "jsonNumber x" by simp
  show ?case unfolding reads_def
  proof (intro allI impI)
    fix fuel pre rest
    assume "parseFuel (JNumber x) \<le> fuel" and pre: "list_all isJsonSpace pre" and ne: "numberEnd rest"
    then obtain f where fuel: "fuel = Suc f" by (cases fuel) auto
    have "skipWs (pre @ stringifyIndent ind (JNumber x) @ rest) = Number_toString x @ rest"
      using skipWs_value [OF pre, of ind "JNumber x" rest] jsonNumber_finite [OF jn] by simp
    then show "parseValue fuel (pre @ stringifyIndent ind (JNumber x) @ rest) = Some (JNumber x, rest)"
      unfolding fuel using ne jn by (rule pv_number)
  qed
next
  case (JString s)
  show ?case unfolding reads_def
  proof (intro allI impI)
    fix fuel pre rest
    assume "parseFuel (JString s) \<le> fuel" and pre: "list_all isJsonSpace pre"
    then obtain f where fuel: "fuel = Suc f" by (cases fuel) auto
    have "skipWs (pre @ stringifyIndent ind (JString s) @ rest) = quote s @ rest"
      using skipWs_value [OF pre, of ind "JString s" rest] by simp
    then show "parseValue fuel (pre @ stringifyIndent ind (JString s) @ rest) = Some (JString s, rest)"
      unfolding fuel by (rule pv_string)
  qed
next
  case (JArray vs)
  have ind2: "list_all isJsonSpace (ind @ ''  '')"
    using JArray.prems(2) by (simp add: space_blank)
  have elems: "\<forall>v\<in>set vs. reads (ind @ ''  '') v"
    using JArray.IH JArray.prems(1) ind2 by (auto simp: list_all_iff)
  show ?case unfolding reads_def
  proof (intro allI impI)
    fix fuel pre rest
    assume fl: "parseFuel (JArray vs) \<le> fuel" and pre: "list_all isJsonSpace pre"
    then obtain f where fuel: "fuel = Suc f"
      and f: "sum_list (map (\<lambda>v. Suc (parseFuel v)) vs) \<le> f" by (cases fuel) auto
    show "parseValue fuel (pre @ stringifyIndent ind (JArray vs) @ rest) = Some (JArray vs, rest)"
    proof (cases "vs = []")
      case True
      have "skipWs (pre @ stringifyIndent ind (JArray vs) @ rest) = ''[]'' @ rest"
        using skipWs_value [OF pre, of ind "JArray vs" rest] True by simp
      then show ?thesis unfolding fuel using True by (simp only: pv_empty_array)
    next
      case False
      have sk: "skipWs (pre @ stringifyIndent ind (JArray vs) @ rest) = ''['' @ elementsText ind vs rest"
        using skipWs_value [OF pre, of ind "JArray vs" rest] stringify_array [OF False, of ind rest]
        by simp
      have pe: "parseElements f [] (elementsText ind vs rest) = Some ([] @ vs, rest)"
        by (rule parseElements_roundtrip [OF False elems JArray.prems(2) f])
      show ?thesis
        unfolding fuel
        by (simp only: pv_array [OF sk skipWs_elementsText [OF False JArray.prems(2)]] pe) simp
    qed
  qed
next
  case (JObject kvs)
  have ind2: "list_all isJsonSpace (ind @ ''  '')"
    using JObject.prems(2) by (simp add: space_blank)
  have mems: "\<forall>kv\<in>set kvs. reads (ind @ ''  '') (snd kv)"
  proof
    fix kv assume kv: "kv \<in> set kvs"
    then have "representable (snd kv)" using JObject.prems(1) by (simp add: list_all_iff)
    moreover have "snd kv \<in> Basic_BNFs.snds kv" by (cases kv) simp
    ultimately show "reads (ind @ ''  '') (snd kv)"
      using JObject.IH [OF kv] ind2 by blast
  qed
  have dist: "distinct (map fst ([] @ kvs))" using JObject.prems(1) by simp
  show ?case unfolding reads_def
  proof (intro allI impI)
    fix fuel pre rest
    assume fl: "parseFuel (JObject kvs) \<le> fuel" and pre: "list_all isJsonSpace pre"
    then obtain f where fuel: "fuel = Suc f"
      and f: "sum_list (map (\<lambda>kv. Suc (parseFuel (snd kv))) kvs) \<le> f" by (cases fuel) auto
    show "parseValue fuel (pre @ stringifyIndent ind (JObject kvs) @ rest) = Some (JObject kvs, rest)"
    proof (cases "kvs = []")
      case True
      have "skipWs (pre @ stringifyIndent ind (JObject kvs) @ rest) = ''{}'' @ rest"
        using skipWs_value [OF pre, of ind "JObject kvs" rest] True by simp
      then show ?thesis unfolding fuel using True by (simp only: pv_empty_object)
    next
      case False
      have sk: "skipWs (pre @ stringifyIndent ind (JObject kvs) @ rest) = ''{'' @ membersText ind kvs rest"
        using skipWs_value [OF pre, of ind "JObject kvs" rest] stringify_object [OF False, of ind rest]
        by simp
      have pm: "parseMembers f [] (membersText ind kvs rest) = Some ([] @ kvs, rest)"
        by (rule parseMembers_roundtrip [OF False mems JObject.prems(2) f dist])
      show ?thesis
        unfolding fuel
        by (simp only: pv_object [OF sk skipWs_membersText [OF False JObject.prems(2)]] pm) simp
    qed
  qed
qed

lemma sum_list_mono_length:
  assumes "\<forall>x\<in>set xs. f x \<le> length (g x)"
  shows "sum_list (map f xs) \<le> sum_list (map length (map g xs))"
  using assms by (induction xs) (simp_all add: add_mono)

lemma parseFuel_le_length: "parseFuel v \<le> length (stringifyIndent ind v)"
proof (induction v arbitrary: ind)
  case (JNumber x)
  show ?case using stringify_nonempty [of ind "JNumber x"]
    by (cases "stringifyIndent ind (JNumber x)") simp_all
next
  case (JString s)
  show ?case by (simp add: quote_def)
next
  case (JArray vs)
  let ?g = "\<lambda>v. (ind @ ''  '') @ stringifyIndent (ind @ ''  '') v"
  have "\<forall>v\<in>set vs. Suc (parseFuel v) \<le> length (?g v)"
    using JArray.IH [of _ "ind @ ''  ''"] by (auto intro: le_SucI simp: Suc_le_eq less_Suc_eq_le trans_le_add2)
  then have "sum_list (map (\<lambda>v. Suc (parseFuel v)) vs) \<le> sum_list (map length (map ?g vs))"
    by (rule sum_list_mono_length)
  also have "\<dots> \<le> length (joinWith ('','' @ [LF]) (map ?g vs))"
    by (rule length_joinWith)
  finally show ?case by simp
next
  case (JObject kvs)
  let ?g = "\<lambda>kv. (ind @ ''  '') @ quote (fst kv) @ '': '' @ stringifyIndent (ind @ ''  '') (snd kv)"
  have "\<forall>kv\<in>set kvs. Suc (parseFuel (snd kv)) \<le> length (?g kv)"
  proof
    fix kv assume kv: "kv \<in> set kvs"
    have "snd kv \<in> Basic_BNFs.snds kv" by (cases kv) simp
    from JObject.IH [OF kv this, of "ind @ ''  ''"]
    show "Suc (parseFuel (snd kv)) \<le> length (?g kv)" by simp
  qed
  then have "sum_list (map (\<lambda>kv. Suc (parseFuel (snd kv))) kvs) \<le> sum_list (map length (map ?g kvs))"
    by (rule sum_list_mono_length)
  also have "\<dots> \<le> length (joinWith ('','' @ [LF]) (map ?g kvs))"
    by (rule length_joinWith)
  finally show ?case by simp
qed (simp_all)

lemma JSON_roundtrip:
  assumes "representable v"
  shows "JSON_parse ([LF] @ JSON_stringify v @ [LF]) = Some v"
proof -
  let ?s = "[LF] @ JSON_stringify v @ [LF]"
  have fuel: "parseFuel v \<le> 2 * length ?s + 2"
    using parseFuel_le_length [of v "[]"] by (simp add: JSON_stringify_def)
  have "reads [] v" using assms by (intro reads_all) simp_all
  from readsD [OF this fuel, of "[LF]" "[LF]"]
  have "parseValue (2 * length ?s + 2) ?s = Some (v, [LF])"
    by (simp add: JSON_stringify_def space_LF numberEnd_punct)
  then show ?thesis
    by (simp add: JSON_parse_def skipWs_def space_LF)
qed

lemma representable_reportToJson:
  assumes "representableReport report"
  shows "representable (reportToJson report)"
proof -
  have r: "representable (resultToJson x)"
    if "case resultDuration x of None \<Rightarrow> True | Some n \<Rightarrow> jsonNumber n"
      and "case details x of None \<Rightarrow> True | Some d \<Rightarrow> representable d" for x
    using that by (simp add: resultToJson_def optional_def split: option.splits)
  have "list_all representable (map resultToJson (results report))"
    using assms r by (simp add: representableReport_def list_all_iff)
  moreover have "representable (summaryToJson (summary report))"
    by (simp add: summaryToJson_def jsonNumber_numberOfNat)
  moreover have "case metadata report of None \<Rightarrow> True | Some d \<Rightarrow> representable d"
    using assms by (simp add: representableReport_def)
  moreover have "jsonNumber (timestamp report)" "jsonNumber (duration report)"
    using assms by (simp_all add: representableReport_def)
  ultimately show ?thesis
    by (simp add: reportToJson_def optional_def list_all_iff split: option.splits)
qed

subsection \<open>Where the tags are found\<close>

lemma indexOf_here: "indexOf (pat @ rest) pat = Some 0"
proof (cases "pat @ rest")
  case Nil
  then show ?thesis by simp
next
  case (Cons a l)
  have "prefix pat (pat @ rest)" by simp
  then show ?thesis unfolding Cons by simp
qed

lemma indexOf_first:
  "(\<And>j. j < length pre \<Longrightarrow> \<not> prefix pat (drop j (pre @ pat @ post))) \<Longrightarrow>
     indexOf (pre @ pat @ post) pat = Some (length pre)"
proof (induction pre)
  case Nil
  show ?case by (simp add: indexOf_here)
next
  case (Cons c pre)
  have 0: "\<not> prefix pat (c # pre @ pat @ post)"
    using Cons.prems [of 0] by simp
  have "\<And>j. j < length pre \<Longrightarrow> \<not> prefix pat (drop j (pre @ pat @ post))"
    using Cons.prems [of "Suc j" for j] by simp
  from Cons.IH [OF this] 0 show ?case by simp
qed

lemma indexOf_char: "c \<notin> set pre \<Longrightarrow> indexOf (pre @ c # post) [c] = Some (length pre)"
  by (induction pre) auto

lemma lastIndexOf_absent: "c \<notin> set s \<Longrightarrow> lastIndexOf s [c] = None"
  by (induction s) auto

lemma lastIndexOf_char: "c \<notin> set post \<Longrightarrow> lastIndexOf (pre @ c # post) [c] = Some (length pre)"
  by (induction pre) (auto simp: lastIndexOf_absent)

lemma prefix_no_straddle:
  assumes "c \<notin> set pat" and "prefix pat (drop j (X @ c # Y))" and "j \<le> length X"
  shows "prefix pat (drop j X)"
proof -
  from assms(3) have "drop j (X @ c # Y) = drop j X @ c # Y" by simp
  with assms(2) have "prefix pat (drop j X @ c # Y)" by simp
  then consider "prefix pat (drop j X)" | us where "pat = drop j X @ us" "prefix us (c # Y)"
    by (auto simp: prefix_append)
  then show ?thesis
  proof cases
    case 1
    then show ?thesis .
  next
    case 2
    show ?thesis
    proof (cases us)
      case Nil
      with 2 show ?thesis by simp
    next
      case (Cons u us')
      with 2 have "u = c" by simp
      with 2 Cons assms(1) show ?thesis by simp
    qed
  qed
qed

lemma unit_LF: "units [LF] = [10]" and unit_gt: "units ''>'' = [62]" and unit_lt: "units ''<'' = [60]"
  by (simp_all add: units_def LF_def)

lemma close_tag_first:
  assumes "\<not> sublist TEST_RESULT_TAG_CLOSE J" and "j < length (TEST_RESULT_TAG_OPEN @ [62] @ [10] @ J @ [10])"
  shows "\<not> prefix TEST_RESULT_TAG_CLOSE
           (drop j ((TEST_RESULT_TAG_OPEN @ [62] @ [10] @ J @ [10]) @ TEST_RESULT_TAG_CLOSE @ []))"
proof
  assume p: "prefix TEST_RESULT_TAG_CLOSE
           (drop j ((TEST_RESULT_TAG_OPEN @ [62] @ [10] @ J @ [10]) @ TEST_RESULT_TAG_CLOSE @ []))"
  have nl: "10 \<notin> set TEST_RESULT_TAG_CLOSE"
    by (simp add: TEST_RESULT_TAG_CLOSE_def units_def)
  have e1: "(TEST_RESULT_TAG_OPEN @ [62] @ [10] @ J @ [10]) @ TEST_RESULT_TAG_CLOSE @ []
          = ((TEST_RESULT_TAG_OPEN @ [62]) @ 10 # J) @ 10 # TEST_RESULT_TAG_CLOSE"
    by simp
  have j1: "j \<le> length ((TEST_RESULT_TAG_OPEN @ [62]) @ 10 # J)"
    using assms(2) by simp
  have p1: "prefix TEST_RESULT_TAG_CLOSE (drop j ((TEST_RESULT_TAG_OPEN @ [62]) @ 10 # J))"
    using prefix_no_straddle [OF nl _ j1] p unfolding e1 by blast
  show False
  proof (cases "j \<le> length (TEST_RESULT_TAG_OPEN @ [62])")
    case True
    from prefix_no_straddle [OF nl p1 True]
    have "prefix TEST_RESULT_TAG_CLOSE (drop j (TEST_RESULT_TAG_OPEN @ [62]))" .
    then have "length TEST_RESULT_TAG_CLOSE \<le> length (drop j (TEST_RESULT_TAG_OPEN @ [62]))"
      by (rule prefix_length_le)
    then show False by (simp add: TEST_RESULT_TAG_CLOSE_def TEST_RESULT_TAG_OPEN_def units_def)
  next
    case False
    then have "drop j ((TEST_RESULT_TAG_OPEN @ [62]) @ 10 # J)
               = drop (j - Suc (length (TEST_RESULT_TAG_OPEN @ [62]))) J"
      by (simp add: drop_Cons' not_le)
    with p1 have "prefix TEST_RESULT_TAG_CLOSE (drop (j - Suc (length (TEST_RESULT_TAG_OPEN @ [62]))) J)"
      by simp
    then have "sublist TEST_RESULT_TAG_CLOSE J"
      by (metis append_take_drop_id prefix_def sublist_appendI)
    with assms(1) show False by simp
  qed
qed

text \<open>
  With no closing tag inside the text of the report, the parser hands to \<open>JSON.parse\<close>
  exactly the text that \<open>JSON.stringify\<close> wrote, between its two line feeds.
\<close>

lemma tag_layer_transparent:
  assumes "\<not> sublist TEST_RESULT_TAG_CLOSE (stringify report)"
  shows "parseTestResults parse (formatForMessage stringify report)
           = parse (units [LF] @ stringify report @ units [LF])"
proof -
  let ?J = "stringify report"
  let ?P = "TEST_RESULT_TAG_OPEN @ [62] @ [10] @ ?J @ [10]"
  let ?M = "formatForMessage stringify report"
  have M: "?M = ?P @ TEST_RESULT_TAG_CLOSE" by (simp add: formatForMessage_def unit_LF unit_gt)
  have start: "indexOf ?M TEST_RESULT_TAG_OPEN = Some 0"
    unfolding formatForMessage_def by (rule indexOf_here)
  have "indexOf (?P @ TEST_RESULT_TAG_CLOSE @ []) TEST_RESULT_TAG_CLOSE = Some (length ?P)"
    by (rule indexOf_first) (rule close_tag_first [OF assms(1)])
  then have close: "indexOf ?M TEST_RESULT_TAG_CLOSE = Some (length ?P)"
    using M by simp
  have xml: "substring ?M 0 (length ?P + length TEST_RESULT_TAG_CLOSE) = ?M"
    using M by (simp add: substring_def)
  have "indexOf (TEST_RESULT_TAG_OPEN @ 62 # ([10] @ ?J @ [10] @ TEST_RESULT_TAG_CLOSE)) [62]
        = Some (length TEST_RESULT_TAG_OPEN)"
    by (rule indexOf_char) (simp add: TEST_RESULT_TAG_OPEN_def units_def)
  then have gt: "indexOf ?M (units ''>'') = Some 15"
    using M by (simp add: unit_gt TEST_RESULT_TAG_OPEN_def units_def)
  have "lastIndexOf (?P @ 60 # units ''/boltTestResult>'') [60] = Some (length ?P)"
    by (rule lastIndexOf_char) (simp add: units_def)
  then have lt: "lastIndexOf ?M (units ''<'') = Some (length ?P)"
    using M by (simp add: unit_lt TEST_RESULT_TAG_CLOSE_def units_def)
  have "substring (?P @ TEST_RESULT_TAG_CLOSE) (15 + 1) (length ?P) = [10] @ ?J @ [10]"
    by (simp add: substring_def TEST_RESULT_TAG_OPEN_def units_def)
  then have content: "substring ?M (15 + 1) (length ?P) = units [LF] @ ?J @ units [LF]"
    by (simp only: M unit_LF)
  show ?thesis
    unfolding parseTestResults_def
    by (simp only: start close option.case Let_def xml gt lt content)
qed

subsection \<open>The JSON model over code units\<close>

lemma of_char_below: "(of_char c :: nat) < 256"
proof -
  have "(of_char c :: nat) mod 256 < 256" by (rule mod_less_divisor) simp
  then show ?thesis by (simp only: of_char_mod_256)
qed

lemma units_below: "list_all (\<lambda>u. u < 256) (units s)"
  by (induction s) (simp_all add: units_def of_char_below)

lemma units_back: "map char_of (units s) = s"
  by (induction s) (simp_all add: units_def)

lemma units_append: "units (a @ b) = units a @ units b"
  by (simp add: units_def)

lemma parseUnits_units: "parseUnits (units s) = JSON_parse s"
  by (simp add: parseUnits_def units_below units_back)

lemma units_inj: "units a = units b \<Longrightarrow> a = b"
  by (metis units_back)

lemma sublist_units: "sublist (units a) (units b) = sublist a b"
proof
  assume "sublist (units a) (units b)"
  then obtain p q where pq: "units b = p @ units a @ q" by (auto simp: sublist_def)
  then have "map char_of (units b) = map char_of p @ map char_of (units a) @ map char_of q" by simp
  then have "b = map char_of p @ a @ map char_of q" by (simp add: units_back)
  then show "sublist a b" by (auto simp: sublist_def)
next
  assume "sublist a b"
  then obtain p q where "b = p @ a @ q" by (auto simp: sublist_def)
  then have "units b = units p @ units a @ units q" by (simp add: units_append)
  then show "sublist (units a) (units b)" by (auto simp: sublist_def)
qed

lemma stringifyUnits_roundtrip:
  assumes "representable v"
  shows "parseUnits (units [LF] @ stringifyUnits v @ units [LF]) = Some v"
proof -
  have "units [LF] @ stringifyUnits v @ units [LF] = units ([LF] @ JSON_stringify v @ [LF])"
    by (simp add: stringifyUnits_def units_def)
  then show ?thesis
    using JSON_roundtrip [OF assms] by (simp only: parseUnits_units)
qed

text \<open>
  C8 (as stated, refuted): a report whose error text contains \<open></boltTestResult>\<close> is
  cut at that first closing tag, the cut text is not JSON, and \<open>parseTestResults\<close>
  returns \<open>null\<close> instead of the report, although \<open>JSON.parse\<close> reads the whole
  text of the report back.
\<close>

theorem formatForMessage_roundtrip_counterexample:
  "parseUnits (stringifyUnits (reportToJson tagInError)) = Some (reportToJson tagInError)
   \<and> parseTestResults parseUnits (formatForMessage stringifyUnits (reportToJson tagInError)) = None"
  by code_simp

text \<open>
  C8 (amended): take any report, with \<open>JSON.stringify\<close> and \<open>JSON.parse\<close> as the
  runtime has them. If \<open>JSON.parse\<close> reads the text of the report (between two line
  feeds) back as the report, and that text does not contain the closing tag
  \<open></boltTestResult>\<close>, then \<open>parseTestResults\<close> of \<open>formatForMessage\<close> is the
  report.
\<close>

theorem formatForMessage_roundtrip:
  assumes "parse (units [LF] @ stringify report @ units [LF]) = Some report"
    and "\<not> sublist TEST_RESULT_TAG_CLOSE (stringify report)"
  shows "parseTestResults parse (formatForMessage stringify report) = Some report"
  using tag_layer_transparent [of stringify report parse] assms by simp

lemma headingWarning_no_tag:
  "\<not> sublist ''</boltTestResult>'' (JSON_stringify (reportToJson headingWarning))"
  by code_simp

lemma headingWarning_representable: "representableReport headingWarning"
  by (simp add: representableReport_def headingWarning_def createReport_def)

theorem formatForMessage_roundtrip_witness:
  "parseUnits (units [LF] @ stringifyUnits (reportToJson headingWarning) @ units [LF])
     = Some (reportToJson headingWarning)
   \<and> \<not> sublist TEST_RESULT_TAG_CLOSE (stringifyUnits (reportToJson headingWarning))
   \<and> parseTestResults parseUnits (formatForMessage stringifyUnits (reportToJson headingWarning))
       = Some (reportToJson headingWarning)"
  using formatForMessage_roundtrip [of parseUnits stringifyUnits "reportToJson headingWarning"]
    stringifyUnits_roundtrip [OF representable_reportToJson [OF headingWarning_representable]]
    headingWarning_no_tag
  by (simp add: TEST_RESULT_TAG_CLOSE_def stringifyUnits_def sublist_units)

text \<open>
  The first condition is also necessary: without the closing tag in the text, the round
  trip gives the report exactly when \<open>JSON.parse\<close> reads its text back.
\<close>

lemma roundtrip_iff_read_back:
  assumes "\<not> sublist TEST_RESULT_TAG_CLOSE (stringify report)"
  shows "(parseTestResults parse (formatForMessage stringify report) = Some report)
           = (parse (units [LF] @ stringify report @ units [LF]) = Some report)"
  using tag_layer_transparent [of stringify report parse] assms by simp

subsection \<open>The reports that JSON reads back\<close>

text \<open>
  In the JSON model the first condition holds for every representable report: finite
  numbers, fractions included, and objects without a repeated key. So such a report
  comes back unless its text contains the closing tag.
\<close>

lemma representable_report_roundtrip:
  assumes "representableReport report"
    and "\<not> sublist ''</boltTestResult>'' (JSON_stringify (reportToJson report))"
  shows "parseTestResults parseUnits (formatForMessage stringifyUnits (reportToJson report))
           = Some (reportToJson report)"
proof -
  have "\<not> sublist TEST_RESULT_TAG_CLOSE (stringifyUnits (reportToJson report))"
    using assms(2) by (simp add: TEST_RESULT_TAG_CLOSE_def stringifyUnits_def sublist_units)
  then show ?thesis
    using tag_layer_transparent [of stringifyUnits "reportToJson report" parseUnits]
      stringifyUnits_roundtrip [OF representable_reportToJson [OF assms(1)]]
    by simp
qed

text \<open>
  It fails for a report that holds \<open>NaN\<close>, which \<open>JSON.stringify\<close> writes as
  \<open>null\<close>: what comes back is a report, but not the one that was sent.
\<close>

lemma nanDuration_text:
  "\<not> sublist ''</boltTestResult>'' (JSON_stringify (reportToJson nanDuration))"
  "JSON_parse ([LF] @ JSON_stringify (reportToJson nanDuration) @ [LF])
     = Some (JObject [(''agentName'', JString ''BrowserTest''), (''timestamp'', JNumber (Decimal False 7 0)),
                      (''duration'', JNull), (''results'', JArray []),
                      (''summary'', JObject [(''total'', JNumber (Decimal False 0 0)),
                                             (''passed'', JNumber (Decimal False 0 0)),
                                             (''failed'', JNumber (Decimal False 0 0)),
                                             (''skipped'', JNumber (Decimal False 0 0))]),
                      (''suggestions'', JArray [])])"
  "reportToJson nanDuration
     = JObject [(''agentName'', JString ''BrowserTest''), (''timestamp'', JNumber (Decimal False 7 0)),
                (''duration'', JNumber NotANumber), (''results'', JArray []),
                (''summary'', JObject [(''total'', JNumber (Decimal False 0 0)),
                                       (''passed'', JNumber (Decimal False 0 0)),
                                       (''failed'', JNumber (Decimal False 0 0)),
                                       (''skipped'', JNumber (Decimal False 0 0))]),
                (''suggestions'', JArray [])]"
  by code_simp+

lemma nanDuration_not_read_back:
  "parseTestResults parseUnits (formatForMessage stringifyUnits (reportToJson nanDuration)) \<noteq> None"
  "parseTestResults parseUnits (formatForMessage stringifyUnits (reportToJson nanDuration))
     \<noteq> Some (reportToJson nanDuration)"
proof -
  have nt: "\<not> sublist TEST_RESULT_TAG_CLOSE (stringifyUnits (reportToJson nanDuration))"
    using nanDuration_text(1) by (simp add: TEST_RESULT_TAG_CLOSE_def stringifyUnits_def sublist_units)
  have "units [LF] @ stringifyUnits (reportToJson nanDuration) @ units [LF]
        = units ([LF] @ JSON_stringify (reportToJson nanDuration) @ [LF])"
    by (simp add: stringifyUnits_def units_def)
  then have "parseUnits (units [LF] @ stringifyUnits (reportToJson nanDuration) @ units [LF])
        = JSON_parse ([LF] @ JSON_stringify (reportToJson nanDuration) @ [LF])"
    by (simp only: parseUnits_units)
  with tag_layer_transparent [of stringifyUnits "reportToJson nanDuration" parseUnits, OF nt]
  have eq: "parseTestResults parseUnits (formatForMessage stringifyUnits (reportToJson nanDuration))
        = JSON_parse ([LF] @ JSON_stringify (reportToJson nanDuration) @ [LF])"
    by simp
  have ne: "JSON_parse ([LF] @ JSON_stringify (reportToJson nanDuration) @ [LF]) \<noteq> None"
    using nanDuration_text(2) by simp
  have other: "JSON_parse ([LF] @ JSON_stringify (reportToJson nanDuration) @ [LF])
                 \<noteq> Some (reportToJson nanDuration)"
    using nanDuration_text(2) by (simp add: nanDuration_text(3))
  show "parseTestResults parseUnits (formatForMessage stringifyUnits (reportToJson nanDuration)) \<noteq> None"
    unfolding eq by (rule ne)
  show "parseTestResults parseUnits (formatForMessage stringifyUnits (reportToJson nanDuration))
     \<noteq> Some (reportToJson nanDuration)"
    unfolding eq by (rule other)
qed
end
